theory Spec2Isabelle
  imports Main "HOL-Library.Word" "HOL-Library.Monad_Syntax"
begin

section \<open>JavaScript strings\<close>

text \<open>
  A JavaScript string is a sequence of UTF-16 code units; \<open>length\<close>, \<open>substring\<close> and
  the regular expressions of the sources (none has the \<open>u\<close> flag) all work on code
  units. The en dash of \<open>dateParser.js\<close> is the single code unit \<open>0x2013\<close>.
\<close>

type_synonym js_char = "16 word"
type_synonym js_string = "js_char list"

text \<open>Latin-1 literals: \<open>js ''abc''\<close> is the JavaScript string \<open>"abc"\<close>.\<close>

definition js :: "string \<Rightarrow> js_string" where
  "js s = map of_char s"

definition en_dash :: js_char where
  "en_dash = 0x2013"

subsection \<open>Character classes of the regular expressions\<close>

text \<open>
  \<open>\d\<close> is \<open>[0-9]\<close> and \<open>\w\<close> is \<open>[A-Za-z0-9_]\<close>. The \<open>i\<close> flag adds nothing to them
  without the \<open>u\<close> flag: canonicalisation never maps a code unit above 127 to one below.
\<close>

definition is_digit :: "js_char \<Rightarrow> bool" where
  "is_digit c \<longleftrightarrow> 0x30 \<le> c \<and> c \<le> 0x39"

definition is_upper :: "js_char \<Rightarrow> bool" where
  "is_upper c \<longleftrightarrow> 0x41 \<le> c \<and> c \<le> 0x5A"

definition is_lower :: "js_char \<Rightarrow> bool" where
  "is_lower c \<longleftrightarrow> 0x61 \<le> c \<and> c \<le> 0x7A"

definition is_word :: "js_char \<Rightarrow> bool" where
  "is_word c \<longleftrightarrow> is_upper c \<or> is_lower c \<or> is_digit c \<or> c = 0x5F"

text \<open>
  \<open>\s\<close>: the WhiteSpace and LineTerminator code points of ECMAScript (tab, LF, VT, FF,
  CR, space, no-break space, the Unicode space separators, LS, PS and the byte order mark).
\<close>

definition is_space :: "js_char \<Rightarrow> bool" where
  "is_space c \<longleftrightarrow>
     (0x09 \<le> c \<and> c \<le> 0x0D) \<or> c = 0x20 \<or> c = 0xA0 \<or> c = 0x1680 \<or>
     (0x2000 \<le> c \<and> c \<le> 0x200A) \<or> c = 0x2028 \<or> c = 0x2029 \<or> c = 0x202F \<or>
     c = 0x205F \<or> c = 0x3000 \<or> c = 0xFEFF"

text \<open>The class \<open>[\<endash>-]\<close>: an en dash or an ASCII hyphen.\<close>

definition is_dash :: "js_char \<Rightarrow> bool" where
  "is_dash c \<longleftrightarrow> c = en_dash \<or> c = 0x2D"

subsection \<open>Case conversion and \<open>parseInt\<close>\<close>

text \<open>
  \<open>toUpperCase\<close> and \<open>toLowerCase\<close> on ASCII. The sources apply them only to captures
  of \<open>\w+\<close> and of \<open>AM|PM\<close>, which are ASCII, where they agree with the built-ins.
\<close>

definition toUpperCase :: "js_string \<Rightarrow> js_string" where
  "toUpperCase s = map (\<lambda>c. if is_lower c then c - 0x20 else c) s"

definition toLowerCase :: "js_string \<Rightarrow> js_string" where
  "toLowerCase s = map (\<lambda>c. if is_upper c then c + 0x20 else c) s"

text \<open>
  \<open>parseInt(s, 10)\<close> reads the decimal digits at the start of \<open>s\<close>. The sources call it
  on captures of \<open>\d{1,2}\<close> and \<open>\d{2}\<close> only, so there is no sign, no leading white
  space and always a digit (the result is never \<open>NaN\<close>).
\<close>

definition digit_val :: "js_char \<Rightarrow> nat" where
  "digit_val c = unat c - 48"

definition parseInt :: "js_string \<Rightarrow> nat" where
  "parseInt s = foldl (\<lambda>acc c. acc * 10 + digit_val c) 0 (takeWhile is_digit s)"

subsection \<open>Regular-expression pieces\<close>

text \<open>
  Each piece consumes a prefix of the input and returns the matched text with the rest,
  or \<open>None\<close> when the piece cannot match there. Quantifiers are greedy. In both patterns
  of \<open>dateParser.js\<close> every quantified class is followed by a piece that cannot start
  with a member of that class, so the greedy choice is the only one under which the rest
  of the pattern can match, and backtracking never finds another match.
\<close>

text \<open>\<open>C+\<close> for \<open>lo = 1\<close>, \<open>C*\<close> for \<open>lo = 0\<close>.\<close>

definition many :: "(js_char \<Rightarrow> bool) \<Rightarrow> nat \<Rightarrow> js_string \<Rightarrow> (js_string \<times> js_string) option" where
  "many P lo s =
     (if length (takeWhile P s) < lo then None else Some (takeWhile P s, dropWhile P s))"

text \<open>\<open>\d{1,2}\<close>\<close>

definition digits12 :: "js_string \<Rightarrow> (js_string \<times> js_string) option" where
  "digits12 s =
     (let n = min 2 (length (takeWhile is_digit s))
      in if n < 1 then None else Some (take n s, drop n s))"

text \<open>\<open>\d{2}\<close>\<close>

definition digits2 :: "js_string \<Rightarrow> (js_string \<times> js_string) option" where
  "digits2 s =
     (case s of
        a # b # r \<Rightarrow> if is_digit a \<and> is_digit b then Some ([a, b], r) else None
      | _ \<Rightarrow> None)"

text \<open>A single character of a class, and a literal character.\<close>

definition one :: "(js_char \<Rightarrow> bool) \<Rightarrow> js_string \<Rightarrow> (js_string \<times> js_string) option" where
  "one P s = (case s of c # r \<Rightarrow> if P c then Some ([c], r) else None | [] \<Rightarrow> None)"

definition lit :: "js_char \<Rightarrow> js_string \<Rightarrow> (js_string \<times> js_string) option" where
  "lit c s = one (\<lambda>x. x = c) s"

text \<open>\<open>(AM|PM)\<close> under the \<open>i\<close> flag: \<open>A\<close> or \<open>P\<close> in either case, then \<open>M\<close> in either case.\<close>

definition is_meridiem :: "js_string \<Rightarrow> bool" where
  "is_meridiem p \<longleftrightarrow> toUpperCase p = js ''AM'' \<or> toUpperCase p = js ''PM''"

definition meridiem :: "js_string \<Rightarrow> (js_string \<times> js_string) option" where
  "meridiem s =
     (case s of
        a # m # r \<Rightarrow> if is_meridiem [a, m] then Some ([a, m], r) else None
      | _ \<Rightarrow> None)"

text \<open>\<open>$\<close> (no \<open>m\<close> flag): only the end of the input.\<close>

definition at_end :: "js_string \<Rightarrow> bool" where
  "at_end s \<longleftrightarrow> s = []"

section \<open>dateParser.js\<close>

subsection \<open>\<open>parseTime\<close>\<close>

text \<open>
  The match of \<open>/^(\d{1,2}):(\d{2})\s*(AM|PM)$/i\<close>: the three capture groups.
\<close>

definition match_time :: "js_string \<Rightarrow> (js_string \<times> js_string \<times> js_string) option" where
  "match_time s =
     do {
       (g1, s1) \<leftarrow> digits12 s;
       (_, s2) \<leftarrow> lit 0x3A s1;
       (g2, s3) \<leftarrow> digits2 s2;
       (_, s4) \<leftarrow> many is_space 0 s3;
       (g3, s5) \<leftarrow> meridiem s4;
       if at_end s5 then Some (g1, g2, g3) else None
     }"

record clock =
  hours :: nat
  minutes :: nat

definition parseTime :: "js_string \<Rightarrow> clock option" where
  "parseTime timeStr =
     (case match_time timeStr of
        None \<Rightarrow> None
      | Some (m1, m2, m3) \<Rightarrow>
          let hrs = parseInt m1;
              mins = parseInt m2;
              period = toUpperCase m3
          in if hrs < 1 \<or> hrs > 12 then None
             else Some \<lparr>hours =
                          (if period = js ''PM'' \<and> hrs \<noteq> 12 then hrs + 12
                           else if period = js ''AM'' \<and> hrs = 12 then 0
                           else hrs),
                        minutes = mins\<rparr>)"

subsection \<open>The built-in \<open>Date\<close>\<close>

text \<open>
  The date arithmetic of ECMAScript (ECMA-262, Date objects). A time value is a number of
  milliseconds since 1 January 1970 UTC, or \<open>NaN\<close> (\<open>None\<close>: an invalid date). Division is
  floor division and \<open>mod\<close> has the sign of the divisor, as in the standard.
\<close>

type_synonym Date = "int option"

definition msPerDay :: int where "msPerDay = 86400000"
definition msPerHour :: int where "msPerHour = 3600000"
definition msPerMinute :: int where "msPerMinute = 60000"
definition msPerSecond :: int where "msPerSecond = 1000"

definition Day :: "int \<Rightarrow> int" where
  "Day t = t div msPerDay"

definition DaysInYear :: "int \<Rightarrow> int" where
  "DaysInYear y =
     (if y mod 4 \<noteq> 0 then 365 else if y mod 100 \<noteq> 0 then 366
      else if y mod 400 \<noteq> 0 then 365 else 366)"

definition DayFromYear :: "int \<Rightarrow> int" where
  "DayFromYear y = 365 * (y - 1970) + (y - 1969) div 4 - (y - 1901) div 100 + (y - 1601) div 400"

text \<open>
  \<open>YearFromTime t\<close> is the largest year \<open>y\<close> with \<open>DayFromYear y \<le> Day t\<close>. The search
  \<open>year_down\<close> starts at a year that is not too small and walks down; its termination
  rests on the length of a year, 365 or 366 days.
\<close>

function year_down :: "int \<Rightarrow> int \<Rightarrow> int" where
  "year_down d y = (if DayFromYear y \<le> d then y else year_down d (y - 1))"
  by pat_completeness auto

lemma div_step:
  fixes a k :: int
  assumes "0 < k"
  shows "(a + 1) div k = a div k + (if (a + 1) mod k = 0 then 1 else 0)"
proof -
  define q r where "q = a div k" and "r = a mod k"
  have a: "a = k * q + r" and r: "0 \<le> r" "r < k"
    using assms by (simp_all add: q_def r_def)
  show ?thesis
  proof (cases "r + 1 = k")
    case True
    have "a + 1 = k * (q + 1)" unfolding a using True by (simp add: algebra_simps)
    then have "(a + 1) div k = q + 1" "(a + 1) mod k = 0"
      using assms by simp_all
    then show ?thesis by (simp add: q_def)
  next
    case False
    then have lt: "r + 1 < k" using r by simp
    have e: "a + 1 = k * q + (r + 1)" unfolding a by simp
    have "(a + 1) div k = q + (r + 1) div k" "(a + 1) mod k = (r + 1) mod k"
      unfolding e using assms by simp_all
    moreover have "(r + 1) div k = 0" "(r + 1) mod k = r + 1"
      using lt r by (simp_all add: div_pos_pos_trivial mod_pos_pos_trivial)
    ultimately show ?thesis using r by (simp add: q_def)
  qed
qed

lemma mod_4_shift: "((y::int) - 1968) mod 4 = y mod 4"
proof -
  have "(y - 1968) mod 4 = (y + 4 * (- 492)) mod 4" by simp
  also have "\<dots> = y mod 4" by (rule mod_mult_self2)
  finally show ?thesis .
qed

lemma mod_100_shift: "((y::int) - 1900) mod 100 = y mod 100"
proof -
  have "(y - 1900) mod 100 = (y + 100 * (- 19)) mod 100" by simp
  also have "\<dots> = y mod 100" by (rule mod_mult_self2)
  finally show ?thesis .
qed

lemma mod_400_shift: "((y::int) - 1600) mod 400 = y mod 400"
proof -
  have "(y - 1600) mod 400 = (y + 400 * (- 4)) mod 400" by simp
  also have "\<dots> = y mod 400" by (rule mod_mult_self2)
  finally show ?thesis .
qed

lemma mod_100_imp_4: "(y::int) mod 100 = 0 \<Longrightarrow> y mod 4 = 0"
proof -
  assume "y mod 100 = 0"
  then have "100 dvd y" by (simp add: dvd_eq_mod_eq_0)
  moreover have "(4::int) dvd 100" by simp
  ultimately have "4 dvd y" by (rule dvd_trans[rotated])
  then show ?thesis by (simp add: dvd_eq_mod_eq_0)
qed

lemma mod_400_imp_100: "(y::int) mod 400 = 0 \<Longrightarrow> y mod 100 = 0"
proof -
  assume "y mod 400 = 0"
  then have "400 dvd y" by (simp add: dvd_eq_mod_eq_0)
  moreover have "(100::int) dvd 400" by simp
  ultimately have "100 dvd y" by (rule dvd_trans[rotated])
  then show ?thesis by (simp add: dvd_eq_mod_eq_0)
qed

lemma DayFromYear_step: "DayFromYear (y + 1) = DayFromYear y + DaysInYear y"
proof -
  have 4: "(y - 1968) div 4 = (y - 1969) div 4 + (if y mod 4 = 0 then 1 else 0)"
    using div_step[of 4 "y - 1969"] by (simp add: mod_4_shift)
  have 100: "(y - 1900) div 100 = (y - 1901) div 100 + (if y mod 100 = 0 then 1 else 0)"
    using div_step[of 100 "y - 1901"] by (simp add: mod_100_shift)
  have 400: "(y - 1600) div 400 = (y - 1601) div 400 + (if y mod 400 = 0 then 1 else 0)"
    using div_step[of 400 "y - 1601"] by (simp add: mod_400_shift)
  show ?thesis
    using mod_100_imp_4[of y] mod_400_imp_100[of y]
    by (simp add: DayFromYear_def DaysInYear_def 4 100 400)
qed

lemma DaysInYear_bounds: "365 \<le> DaysInYear y" "DaysInYear y \<le> 366"
  by (simp_all add: DaysInYear_def)

lemma DayFromYear_1970: "DayFromYear 1970 = 0"
  by (simp add: DayFromYear_def)

lemma DayFromYear_pred: "DayFromYear (y - 1) = DayFromYear y - DaysInYear (y - 1)"
  using DayFromYear_step[of "y - 1"] by simp

lemma DayFromYear_below:
  "y \<le> 1970 \<Longrightarrow> 366 * (y - 1970) \<le> DayFromYear y \<and> DayFromYear y \<le> 365 * (y - 1970)"
proof (induction y rule: int_le_induct)
  case base
  show ?case by (simp add: DayFromYear_1970)
next
  case (step i)
  then show ?case
    using DaysInYear_bounds[of "i - 1"] by (simp add: DayFromYear_pred)
qed

lemma DayFromYear_above:
  "1970 \<le> y \<Longrightarrow> 365 * (y - 1970) \<le> DayFromYear y \<and> DayFromYear y \<le> 366 * (y - 1970)"
proof (induction y rule: int_ge_induct)
  case base
  show ?case by (simp add: DayFromYear_1970)
next
  case (step i)
  then show ?case
    using DaysInYear_bounds[of i] by (simp add: DayFromYear_step)
qed

lemma DayFromYear_strict_mono: "y < z \<Longrightarrow> DayFromYear y < DayFromYear z"
proof (induction z rule: int_gr_induct)
  case base
  show ?case using DaysInYear_bounds(1)[of y] by (simp add: DayFromYear_step)
next
  case (step i)
  then show ?case using DaysInYear_bounds(1)[of i] by (simp add: DayFromYear_step)
qed

lemma DayFromYear_mono: "y \<le> z \<Longrightarrow> DayFromYear y \<le> DayFromYear z"
  using DayFromYear_strict_mono[of y z] by (cases "y = z") simp_all

lemma floor_365: "365 * ((d::int) div 365) \<le> d" "d < 365 * (d div 365 + 1)"
  by simp_all

lemma floor_366: "d < 366 * ((d::int) div 366 + 1)"
  by simp

lemma year_down_lower:
  assumes "\<not> DayFromYear y \<le> d"
  shows "1970 + min 0 (d div 365) < y"
proof (rule ccontr)
  assume "\<not> 1970 + min 0 (d div 365) < y"
  then have y: "y \<le> 1970" "y - 1970 \<le> d div 365" "y - 1970 \<le> 0"
    by simp_all
  have "365 * (y - 1970) \<le> d"
  proof (cases "0 \<le> d")
    case True
    with y(3) show ?thesis by simp
  next
    case False
    have "365 * (y - 1970) \<le> 365 * (d div 365)" using y(2) by simp
    with floor_365(1)[of d] show ?thesis by (rule order_trans[rotated])
  qed
  with DayFromYear_below[OF y(1)] assms show False by simp
qed

termination year_down
  by (relation "measure (\<lambda>(d, y). nat (y - (1970 + min 0 (d div 365))))")
     (use year_down_lower in auto)

declare year_down.simps [simp del]

definition YearFromDay :: "int \<Rightarrow> int" where
  "YearFromDay d = year_down d (1970 + max (d div 365) (d div 366))"

definition YearFromTime :: "int \<Rightarrow> int" where
  "YearFromTime t = YearFromDay (Day t)"

definition InLeapYear :: "int \<Rightarrow> int" where
  "InLeapYear t = (if DaysInYear (YearFromTime t) = 366 then 1 else 0)"

definition DayWithinYear :: "int \<Rightarrow> int" where
  "DayWithinYear t = Day t - DayFromYear (YearFromTime t)"

text \<open>The day of the year on which month \<open>m\<close> (0 to 11) starts; \<open>l\<close> is 1 in a leap year.\<close>

definition month_start :: "int \<Rightarrow> int \<Rightarrow> int" where
  "month_start l m =
     (if m = 0 then 0 else if m = 1 then 31 else if m = 2 then 59 + l
      else if m = 3 then 90 + l else if m = 4 then 120 + l else if m = 5 then 151 + l
      else if m = 6 then 181 + l else if m = 7 then 212 + l else if m = 8 then 243 + l
      else if m = 9 then 273 + l else if m = 10 then 304 + l else 334 + l)"

definition MonthFromTime :: "int \<Rightarrow> int" where
  "MonthFromTime t =
     (let d = DayWithinYear t; l = InLeapYear t
      in if d < 31 then 0 else if d < 59 + l then 1 else if d < 90 + l then 2
         else if d < 120 + l then 3 else if d < 151 + l then 4 else if d < 181 + l then 5
         else if d < 212 + l then 6 else if d < 243 + l then 7 else if d < 273 + l then 8
         else if d < 304 + l then 9 else if d < 334 + l then 10 else 11)"

definition DateFromTime :: "int \<Rightarrow> int" where
  "DateFromTime t = DayWithinYear t - month_start (InLeapYear t) (MonthFromTime t) + 1"

definition HourFromTime :: "int \<Rightarrow> int" where
  "HourFromTime t = (t div msPerHour) mod 24"

definition MinFromTime :: "int \<Rightarrow> int" where
  "MinFromTime t = (t div msPerMinute) mod 60"

definition SecFromTime :: "int \<Rightarrow> int" where
  "SecFromTime t = (t div msPerSecond) mod 60"

definition MakeTime :: "int \<Rightarrow> int \<Rightarrow> int \<Rightarrow> int \<Rightarrow> int" where
  "MakeTime hour minute sec ms = hour * msPerHour + minute * msPerMinute + sec * msPerSecond + ms"

text \<open>
  \<open>MakeDay\<close>: the month may lie outside 0 to 11 and the date outside the month; both carry
  over. The result is \<open>NaN\<close> when the first day of the month is not a time value.
\<close>

definition MakeDay :: "int \<Rightarrow> int \<Rightarrow> int \<Rightarrow> int option" where
  "MakeDay year month date =
     (let ym = year + month div 12;
          mn = month mod 12;
          first = DayFromYear ym + month_start (if DaysInYear ym = 366 then 1 else 0) mn
      in if \<bar>first * msPerDay\<bar> \<le> 8640000000000000 then Some (first + date - 1) else None)"

definition MakeDate :: "int \<Rightarrow> int \<Rightarrow> int" where
  "MakeDate day time = day * msPerDay + time"

definition TimeClip :: "int \<Rightarrow> int option" where
  "TimeClip t = (if \<bar>t\<bar> > 8640000000000000 then None else Some t)"

text \<open>
  The local time zone adjustment is the host's. It is fixed to 0 here (a host on UTC):
  the offset shifts both the construction from local fields and the local getters by the
  same amount, and daylight-saving transitions are outside this model.
\<close>

definition LocalTZA :: int where "LocalTZA = 0"

definition LocalTime :: "int \<Rightarrow> int" where
  "LocalTime t = t + LocalTZA"

definition UTC :: "int \<Rightarrow> int" where
  "UTC t = t - LocalTZA"

text \<open>\<open>new Date(year, month, date, hours, minutes)\<close>: years 0 to 99 mean 1900 to 1999.\<close>

definition new_Date :: "int \<Rightarrow> int \<Rightarrow> int \<Rightarrow> int \<Rightarrow> int \<Rightarrow> Date" where
  "new_Date year month date hrs mins =
     (let yr = (if 0 \<le> year \<and> year \<le> 99 then 1900 + year else year)
      in case MakeDay yr month date of
           None \<Rightarrow> None
         | Some day \<Rightarrow> TimeClip (UTC (MakeDate day (MakeTime hrs mins 0 0))))"

text \<open>The local getters; \<open>None\<close> is \<open>NaN\<close>.\<close>

definition getFullYear :: "Date \<Rightarrow> int option" where
  "getFullYear d = map_option (\<lambda>t. YearFromTime (LocalTime t)) d"

definition getMonth :: "Date \<Rightarrow> int option" where
  "getMonth d = map_option (\<lambda>t. MonthFromTime (LocalTime t)) d"

definition getDate :: "Date \<Rightarrow> int option" where
  "getDate d = map_option (\<lambda>t. DateFromTime (LocalTime t)) d"

definition getHours :: "Date \<Rightarrow> int option" where
  "getHours d = map_option (\<lambda>t. HourFromTime (LocalTime t)) d"

definition getMinutes :: "Date \<Rightarrow> int option" where
  "getMinutes d = map_option (\<lambda>t. MinFromTime (LocalTime t)) d"

definition getSeconds :: "Date \<Rightarrow> int option" where
  "getSeconds d = map_option (\<lambda>t. SecFromTime (LocalTime t)) d"

text \<open>The length of month \<open>m\<close> (0 to 11) of year \<open>y\<close>.\<close>

definition DaysInMonth :: "int \<Rightarrow> int \<Rightarrow> int" where
  "DaysInMonth y m =
     (if m = 1 then (if DaysInYear y = 366 then 29 else 28)
      else if m = 3 \<or> m = 5 \<or> m = 8 \<or> m = 10 then 30 else 31)"

subsection \<open>Numbers as text\<close>

text \<open>
  \<open>Number.prototype.toString(radix)\<close> on an integer (digits \<open>0-9a-z\<close>, a leading minus
  sign) and on \<open>NaN\<close>. Every integer printed by the sources is below \<open>10^21\<close> in absolute
  value, where the built-in prints all digits.
\<close>

definition digit_char :: "nat \<Rightarrow> js_char" where
  "digit_char k = (if k < 10 then of_nat (48 + k) else of_nat (87 + k))"

function digits_radix :: "nat \<Rightarrow> nat \<Rightarrow> js_string" where
  "digits_radix b n =
     (if n < b \<or> b < 2 then [digit_char n]
      else digits_radix b (n div b) @ [digit_char (n mod b)])"
  by pat_completeness auto
termination
  by (relation "measure snd") (auto simp: div_less_dividend)

declare digits_radix.simps [simp del]

definition toString :: "nat \<Rightarrow> int option \<Rightarrow> js_string" where
  "toString radix x =
     (case x of
        None \<Rightarrow> js ''NaN''
      | Some n \<Rightarrow> if n < 0 then 0x2D # digits_radix radix (nat (- n))
                  else digits_radix radix (nat n))"

text \<open>\<open>s.padStart(2, '0')\<close>\<close>

definition padStart2 :: "js_string \<Rightarrow> js_string" where
  "padStart2 s = replicate (2 - length s) 0x30 @ s"

subsection \<open>\<open>formatISODate\<close>\<close>

definition pad :: "int option \<Rightarrow> js_string" where
  "pad n = padStart2 (toString 10 n)"

definition formatISODate :: "Date \<Rightarrow> js_string" where
  "formatISODate date =
     (let year = getFullYear date;
          month = pad (map_option (\<lambda>m. m + 1) (getMonth date));
          day = pad (getDate date);
          hrs = pad (getHours date);
          mins = pad (getMinutes date);
          secs = pad (getSeconds date)
      in toString 10 year @ month @ day @ js ''T'' @ hrs @ mins @ secs)"

subsection \<open>\<open>parseEventDateTime\<close>\<close>

text \<open>
  The table \<open>MONTHS\<close>. The key looked up has at most three characters, so it never names
  a property inherited from \<open>Object.prototype\<close>: an unknown key gives \<open>undefined\<close>
  (\<open>None\<close>).
\<close>

definition MONTHS :: "js_string \<Rightarrow> nat option" where
  "MONTHS = map_of
     [(js ''jan'', 0), (js ''feb'', 1), (js ''mar'', 2), (js ''apr'', 3), (js ''may'', 4),
      (js ''jun'', 5), (js ''jul'', 6), (js ''aug'', 7), (js ''sep'', 8), (js ''oct'', 9),
      (js ''nov'', 10), (js ''dec'', 11)]"

text \<open>
  The match of
  \<open>/^(?:\w+),\s+(\w+)\s+(\d{1,2}),\s+(\d{1,2}):(\d{2})\s*[\<endash>-]\s*(\d{1,2}):(\d{2})\s*(AM|PM)\s+(\w+)$/i\<close>:
  the eight capture groups, in order.
\<close>

type_synonym event_groups =
  "js_string \<times> js_string \<times> js_string \<times> js_string \<times> js_string \<times> js_string \<times> js_string \<times> js_string"

definition match_event :: "js_string \<Rightarrow> event_groups option" where
  "match_event s =
     do {
       (_, s1) \<leftarrow> many is_word 1 s;
       (_, s2) \<leftarrow> lit 0x2C s1;
       (_, s3) \<leftarrow> many is_space 1 s2;
       (g1, s4) \<leftarrow> many is_word 1 s3;
       (_, s5) \<leftarrow> many is_space 1 s4;
       (g2, s6) \<leftarrow> digits12 s5;
       (_, s7) \<leftarrow> lit 0x2C s6;
       (_, s8) \<leftarrow> many is_space 1 s7;
       (g3, s9) \<leftarrow> digits12 s8;
       (_, s10) \<leftarrow> lit 0x3A s9;
       (g4, s11) \<leftarrow> digits2 s10;
       (_, s12) \<leftarrow> many is_space 0 s11;
       (_, s13) \<leftarrow> one is_dash s12;
       (_, s14) \<leftarrow> many is_space 0 s13;
       (g5, s15) \<leftarrow> digits12 s14;
       (_, s16) \<leftarrow> lit 0x3A s15;
       (g6, s17) \<leftarrow> digits2 s16;
       (_, s18) \<leftarrow> many is_space 0 s17;
       (g7, s19) \<leftarrow> meridiem s18;
       (_, s20) \<leftarrow> many is_space 1 s19;
       (g8, s21) \<leftarrow> many is_word 1 s20;
       if at_end s21 then Some (g1, g2, g3, g4, g5, g6, g7, g8) else None
     }"

text \<open>
  The first argument is any JavaScript value. \<open>JS_other\<close> stands for the values of every
  other type (numbers, symbols, objects, functions).
\<close>

datatype 'a js_value = JS_undefined | JS_null | JS_boolean bool | JS_string js_string | JS_other 'a

record event_range =
  startDate :: Date
  endDate :: Date
  timezone :: js_string

text \<open>
  The guard \<open>!dateTimeStr || typeof dateTimeStr !== 'string'\<close> lets through the non-empty
  strings only: among strings the empty one alone is falsy, and a value of any other type
  fails the \<open>typeof\<close> test whatever its truth value.
\<close>

definition parseEventDateTime :: "'a js_value \<Rightarrow> int \<Rightarrow> event_range option" where
  "parseEventDateTime dateTimeStr referenceYear =
     (case dateTimeStr of
        JS_string s \<Rightarrow>
          if s = [] then None
          else
            (case match_event s of
               None \<Rightarrow> None
             | Some (monthStr, dayStr, startHourStr, startMinStr, endHourStr, endMinStr, period, tz) \<Rightarrow>
                 (case MONTHS (take 3 (toLowerCase monthStr)) of
                    None \<Rightarrow> None
                  | Some month \<Rightarrow>
                      let day = parseInt dayStr;
                          startHour = parseInt startHourStr;
                          startMin = parseInt startMinStr;
                          endHour = parseInt endHourStr;
                          endMin = parseInt endMinStr;
                          isPM = (toUpperCase period = js ''PM'');
                          endHour = (if isPM \<and> endHour \<noteq> 12 then endHour + 12
                                     else if \<not> isPM \<and> endHour = 12 then 0
                                     else endHour);
                          startHour = (if isPM \<and> startHour \<noteq> 12 then startHour + 12
                                       else if \<not> isPM \<and> startHour = 12 then 0
                                       else startHour);
                          year = (if month < 11 then referenceYear + 1 else referenceYear)
                      in Some \<lparr>startDate = new_Date year (int month) (int day) (int startHour) (int startMin),
                               endDate = new_Date year (int month) (int day) (int endHour) (int endMin),
                               timezone = toUpperCase tz\<rparr>))
      | _ \<Rightarrow> None)"

section \<open>icsGenerator.js\<close>

text \<open>
  \<open>text.replace(/c/g, rep)\<close> for a pattern that is one literal character and a
  replacement without \<open>$\<close>: the text is scanned from the left and every occurrence of
  \<open>c\<close> is replaced by \<open>rep\<close>.
\<close>

fun replace_all :: "js_char \<Rightarrow> js_string \<Rightarrow> js_string \<Rightarrow> js_string" where
  "replace_all c rep [] = []"
| "replace_all c rep (x # xs) =
     (if x = c then rep @ replace_all c rep xs else x # replace_all c rep xs)"

text \<open>Backslash is \<open>0x5C\<close>, semicolon \<open>0x3B\<close>, comma \<open>0x2C\<close>, line feed \<open>0x0A\<close>, \<open>n\<close> \<open>0x6E\<close>.\<close>

definition escapeICSText :: "js_string \<Rightarrow> js_string" where
  "escapeICSText text =
     replace_all 0x0A [0x5C, 0x6E]
       (replace_all 0x2C [0x5C, 0x2C]
         (replace_all 0x3B [0x5C, 0x3B]
           (replace_all 0x5C [0x5C, 0x5C] text)))"

definition CRLF :: js_string where
  "CRLF = [0x0D, 0x0A]"

text \<open>\<open>Array.prototype.join\<close>\<close>

fun join :: "js_string \<Rightarrow> js_string list \<Rightarrow> js_string" where
  "join sep [] = []"
| "join sep [x] = x"
| "join sep (x # y # ys) = x @ sep @ join sep (y # ys)"

text \<open>The \<open>while\<close> loop of \<open>foldLine\<close>: the continuation lines pushed for \<open>remaining\<close>.\<close>

function fold_rest :: "js_string \<Rightarrow> js_string list" where
  "fold_rest remaining =
     (if length remaining > 0 then (0x20 # take 74 remaining) # fold_rest (drop 74 remaining)
      else [])"
  by pat_completeness auto
termination
  by (relation "measure length") auto

declare fold_rest.simps [simp del]

definition foldLine :: "js_string \<Rightarrow> js_string" where
  "foldLine line =
     (if length line \<le> 75 then line
      else join CRLF (take 75 line # fold_rest (drop 75 line)))"

text \<open>
  The clock and the random number generator are inputs: \<open>now_ms\<close> is what \<open>Date.now()\<close>
  returns, \<open>random36\<close> the text of \<open>Math.random().toString(36)\<close>, and \<open>stamp\<close> the date
  \<open>new Date()\<close> of the \<open>DTSTAMP\<close> line.
\<close>

record env =
  now_ms :: int
  random36 :: js_string
  stamp :: Date

text \<open>
  \<open>acc << 5\<close> converts \<open>acc\<close> to a signed 32-bit integer, shifts and reads the result as
  signed; the subtraction and the addition are on numbers (exact below \<open>2^53\<close>).
\<close>

definition shl5 :: "int \<Rightarrow> int" where
  "shl5 acc = sint (push_bit 5 (word_of_int acc :: 32 word))"

definition titleHash :: "js_string \<Rightarrow> int" where
  "titleHash title = foldl (\<lambda>acc c. (shl5 acc - acc) + uint c) 0 title"

definition generateUID :: "env \<Rightarrow> js_string \<Rightarrow> js_string" where
  "generateUID e title =
     toString 10 (Some (now_ms e)) @ js ''-'' @ take 9 (drop 2 (random36 e)) @ js ''-'' @
     toString 36 (Some (titleHash title)) @ js ''@dynamous.ai''"

record event =
  title :: js_string
  ev_startDate :: Date
  ev_endDate :: Date
  location :: "js_string option"
  url :: "js_string option"
  description :: "js_string option"

text \<open>
  An optional field gives a line when it is present and truthy, that is a non-empty
  string, and no line otherwise.
\<close>

definition optional_line :: "js_string option \<Rightarrow> (js_string \<Rightarrow> js_string) \<Rightarrow> js_string list" where
  "optional_line field line =
     (case field of None \<Rightarrow> [] | Some s \<Rightarrow> if s = [] then [] else [line s])"

definition ics_lines :: "env \<Rightarrow> event \<Rightarrow> js_string list" where
  "ics_lines e ev =
     [js ''BEGIN:VCALENDAR'',
      js ''VERSION:2.0'',
      js ''PRODID:-//Circle Calendar Exporter//Dynamous AI//EN'',
      js ''CALSCALE:GREGORIAN'',
      js ''METHOD:PUBLISH'',
      js ''BEGIN:VEVENT'',
      js ''UID:'' @ generateUID e (title ev),
      js ''DTSTAMP:'' @ formatISODate (stamp e) @ js ''Z'',
      js ''DTSTART:'' @ formatISODate (ev_startDate ev),
      js ''DTEND:'' @ formatISODate (ev_endDate ev),
      js ''SUMMARY:'' @ escapeICSText (title ev)]
     @ optional_line (location ev) (\<lambda>s. js ''LOCATION:'' @ escapeICSText s)
     @ optional_line (url ev) (\<lambda>s. js ''URL:'' @ s)
     @ optional_line (description ev) (\<lambda>s. js ''DESCRIPTION:'' @ escapeICSText s)
     @ [js ''END:VEVENT'', js ''END:VCALENDAR'']"

definition generateICS :: "env \<Rightarrow> event \<Rightarrow> js_string" where
  "generateICS e ev = join CRLF (map foldLine (ics_lines e ev))"

section \<open>The accepted texts\<close>

text \<open>
  The tokens of the two patterns, and the texts that the pattern of \<open>parseEventDateTime\<close>
  accepts, written out piece by piece. These describe the inputs; the code above does not
  use them.
\<close>

definition digit_token :: "js_string \<Rightarrow> bool" where
  "digit_token d \<longleftrightarrow> (length d = 1 \<or> length d = 2) \<and> list_all is_digit d"

definition minute_token :: "js_string \<Rightarrow> bool" where
  "minute_token d \<longleftrightarrow> length d = 2 \<and> list_all is_digit d"

definition word_token :: "js_string \<Rightarrow> bool" where
  "word_token w \<longleftrightarrow> w \<noteq> [] \<and> list_all is_word w"

definition spaces :: "js_string \<Rightarrow> bool" where
  "spaces w \<longleftrightarrow> list_all is_space w"

definition spaces1 :: "js_string \<Rightarrow> bool" where
  "spaces1 w \<longleftrightarrow> w \<noteq> [] \<and> list_all is_space w"

record event_text =
  weekday :: js_string
  sp1 :: js_string
  month_name :: js_string
  sp2 :: js_string
  day_digits :: js_string
  sp3 :: js_string
  start_hour :: js_string
  start_min :: js_string
  sp4 :: js_string
  dash :: js_char
  sp5 :: js_string
  end_hour :: js_string
  end_min :: js_string
  sp6 :: js_string
  marker :: js_string
  sp7 :: js_string
  zone :: js_string

definition render :: "event_text \<Rightarrow> js_string" where
  "render t =
     weekday t @ js '','' @ sp1 t @ month_name t @ sp2 t @ day_digits t @ js '','' @ sp3 t @
     start_hour t @ js '':'' @ start_min t @ sp4 t @ [dash t] @ sp5 t @
     end_hour t @ js '':'' @ end_min t @ sp6 t @ marker t @ sp7 t @ zone t"

definition well_formed :: "event_text \<Rightarrow> bool" where
  "well_formed t \<longleftrightarrow>
     word_token (weekday t) \<and> spaces1 (sp1 t) \<and> word_token (month_name t) \<and> spaces1 (sp2 t) \<and>
     digit_token (day_digits t) \<and> spaces1 (sp3 t) \<and>
     digit_token (start_hour t) \<and> minute_token (start_min t) \<and>
     spaces (sp4 t) \<and> is_dash (dash t) \<and> spaces (sp5 t) \<and>
     digit_token (end_hour t) \<and> minute_token (end_min t) \<and>
     spaces (sp6 t) \<and> is_meridiem (marker t) \<and> spaces1 (sp7 t) \<and> word_token (zone t)"

definition groups_of :: "event_text \<Rightarrow> event_groups" where
  "groups_of t =
     (month_name t, day_digits t, start_hour t, start_min t, end_hour t, end_min t,
      marker t, zone t)"

text \<open>The twelve three-letter month abbreviations, January first.\<close>

definition month_abbrevs :: "js_string list" where
  "month_abbrevs =
     [js ''jan'', js ''feb'', js ''mar'', js ''apr'', js ''may'', js ''jun'',
      js ''jul'', js ''aug'', js ''sep'', js ''oct'', js ''nov'', js ''dec'']"

text \<open>
  The hour conversion in the words of the specification: with PM, 12 stays and every other
  hour has 12 added; with AM, 12 becomes 0 and every other hour is unchanged.
\<close>

definition spec_hour24 :: "bool \<Rightarrow> nat \<Rightarrow> nat" where
  "spec_hour24 pm h = (if pm then (if h = 12 then 12 else h + 12) else (if h = 12 then 0 else h))"

text \<open>
  The escaping in the words of the specification: each character of the field is looked
  at once; a backslash becomes two backslashes, a semicolon backslash-semicolon, a comma
  backslash-comma, a line feed backslash-\<open>n\<close>, and any other character stays.
\<close>

definition escape_char :: "js_char \<Rightarrow> js_string" where
  "escape_char c =
     (if c = 0x5C then [0x5C, 0x5C]
      else if c = 0x3B then [0x5C, 0x3B]
      else if c = 0x2C then [0x5C, 0x2C]
      else if c = 0x0A then [0x5C, 0x6E]
      else [c])"

text \<open>Replacing every \<open>c\<close> by \<open>rep\<close>, character by character.\<close>

definition replace_every :: "js_char \<Rightarrow> js_string \<Rightarrow> js_string \<Rightarrow> js_string" where
  "replace_every c rep text = concat (map (\<lambda>x. if x = c then rep else [x]) text)"

text \<open>
  The physical lines of a text: \<open>text.split('\r\n')\<close>, the pieces between the
  occurrences of CR LF found from the left.
\<close>

fun split_crlf :: "js_string \<Rightarrow> js_string list" where
  "split_crlf [] = [[]]"
| "split_crlf [c] = [[c]]"
| "split_crlf (c # d # s) =
     (if c = 0x0D \<and> d = 0x0A then [] # split_crlf s
      else (case split_crlf (d # s) of [] \<Rightarrow> [[c]] | l # ls \<Rightarrow> (c # l) # ls))"

text \<open>The physical lines that \<open>foldLine\<close> makes of a line, before they are joined.\<close>

definition pieces :: "js_string \<Rightarrow> js_string list" where
  "pieces line = (if length line \<le> 75 then [line] else take 75 line # fold_rest (drop 75 line))"

section \<open>Properties of the pattern pieces\<close>

lemmas scan_defs = js_def many_def digits12_def digits2_def one_def lit_def meridiem_def
  is_meridiem_def at_end_def is_digit_def is_upper_def is_lower_def is_word_def is_space_def
  is_dash_def en_dash_def toUpperCase_def toLowerCase_def parseInt_def digit_val_def

lemmas token_defs = digit_token_def minute_token_def word_token_def spaces_def spaces1_def

lemma takeWhile_stop: "r = [] \<or> \<not> P (hd r) \<Longrightarrow> takeWhile P r = []"
  by (cases r) auto

lemma dropWhile_stop: "r = [] \<or> \<not> P (hd r) \<Longrightarrow> dropWhile P r = r"
  by (cases r) auto

lemma takeWhile_run:
  "list_all P xs \<Longrightarrow> r = [] \<or> \<not> P (hd r) \<Longrightarrow> takeWhile P (xs @ r) = xs"
  by (induction xs) (simp_all add: takeWhile_stop)

lemma dropWhile_run:
  "list_all P xs \<Longrightarrow> r = [] \<or> \<not> P (hd r) \<Longrightarrow> dropWhile P (xs @ r) = r"
  by (induction xs) (simp_all add: dropWhile_stop)

lemma many_run:
  "list_all P xs \<Longrightarrow> lo \<le> length xs \<Longrightarrow> r = [] \<or> \<not> P (hd r) \<Longrightarrow>
   many P lo (xs @ r) = Some (xs, r)"
  by (simp add: many_def takeWhile_run dropWhile_run)

lemma many_Some:
  assumes "many P lo s = Some (xs, r)"
  shows "s = xs @ r \<and> list_all P xs \<and> lo \<le> length xs \<and> (r = [] \<or> \<not> P (hd r))"
proof -
  from assms have xs: "xs = takeWhile P s" and r: "r = dropWhile P s" and lo: "lo \<le> length xs"
    by (auto simp: many_def split: if_splits)
  have "list_all P xs" unfolding xs list_all_iff by (auto dest: set_takeWhileD)
  moreover have "r = [] \<or> \<not> P (hd r)" unfolding r using hd_dropWhile[of P s] by blast
  ultimately show ?thesis using xs r lo by simp
qed

lemma digits12_run:
  "digit_token d \<Longrightarrow> r = [] \<or> \<not> is_digit (hd r) \<Longrightarrow> digits12 (d @ r) = Some (d, r)"
  by (simp add: digits12_def digit_token_def takeWhile_run Let_def) auto

lemma take_takeWhile_le: "n \<le> length (takeWhile P s) \<Longrightarrow> take n s = take n (takeWhile P s)"
  by (induction s arbitrary: n) (auto simp: take_Cons split: nat.splits if_splits)

lemma digits12_Some:
  assumes "digits12 s = Some (d, r)"
  shows "s = d @ r \<and> digit_token d"
proof -
  let ?n = "min 2 (length (takeWhile is_digit s))"
  from assms have n: "0 < ?n" and d: "d = take ?n s" and r: "r = drop ?n s"
    by (auto simp: digits12_def Let_def split: if_splits)
  have "d = take ?n (takeWhile is_digit s)"
    unfolding d by (rule take_takeWhile_le) simp
  then have "list_all is_digit d"
    unfolding list_all_iff by (auto dest!: in_set_takeD set_takeWhileD)
  moreover have "length d = ?n"
    unfolding d using length_takeWhile_le[of is_digit s] by simp
  moreover have "?n = 1 \<or> ?n = 2"
    using n by arith
  ultimately show ?thesis using d r unfolding digit_token_def by auto
qed

lemma digits2_run: "minute_token d \<Longrightarrow> digits2 (d @ r) = Some (d, r)"
  by (cases d; cases "tl d") (auto simp: digits2_def minute_token_def)

lemma digits2_Some: "digits2 s = Some (d, r) \<Longrightarrow> s = d @ r \<and> minute_token d"
  by (auto simp: digits2_def minute_token_def split: list.splits if_splits)

lemma one_run: "P c \<Longrightarrow> one P (c # r) = Some ([c], r)"
  by (simp add: one_def)

lemma one_Some: "one P s = Some (x, r) \<Longrightarrow> \<exists>c. s = c # r \<and> x = [c] \<and> P c"
  by (auto simp: one_def split: list.splits if_splits)

lemma lit_run: "lit c (c # r) = Some ([c], r)"
  by (simp add: lit_def one_def)

lemma lit_Some: "lit c s = Some (x, r) \<Longrightarrow> s = c # r \<and> x = [c]"
  by (auto simp: lit_def one_def split: list.splits if_splits)

lemma is_meridiem_length: "is_meridiem p \<Longrightarrow> length p = 2"
  by (auto simp: is_meridiem_def toUpperCase_def js_def dest!: arg_cong[where f = length])

lemma meridiem_run: "is_meridiem p \<Longrightarrow> meridiem (p @ r) = Some (p, r)"
  by (frule is_meridiem_length, cases p; cases "tl p") (auto simp: meridiem_def)

lemma meridiem_Some: "meridiem s = Some (p, r) \<Longrightarrow> s = p @ r \<and> is_meridiem p"
  by (auto simp: meridiem_def split: list.splits if_splits)

lemma upper_char_eq:
  "(if is_lower c then c - 0x20 else c) = k \<longleftrightarrow>
   (is_lower c \<and> c = k + 0x20) \<or> (\<not> is_lower c \<and> c = k)"
  by auto

text \<open>The eight spellings of the marker.\<close>

lemma is_meridiem_cases:
  "is_meridiem p \<longleftrightarrow>
   p \<in> {js ''AM'', js ''Am'', js ''aM'', js ''am'', js ''PM'', js ''Pm'', js ''pM'', js ''pm''}"
  apply (cases p; cases "tl p"; cases "tl (tl p)")
  apply (auto simp: is_meridiem_def toUpperCase_def js_def upper_char_eq is_lower_def)
  done

lemma is_meridiem_not_space: "is_meridiem p \<Longrightarrow> p = [] \<or> \<not> is_space (hd p)"
  by (auto simp: is_meridiem_cases js_def is_space_def)

lemma is_meridiem_AM_PM:
  "is_meridiem p \<Longrightarrow> toUpperCase p \<noteq> js ''PM'' \<Longrightarrow> toUpperCase p = js ''AM''"
  by (auto simp: is_meridiem_def)

lemma is_digit_unat: "is_digit c \<longleftrightarrow> 48 \<le> unat c \<and> unat c \<le> 57"
  by (simp add: is_digit_def word_le_nat_alt)

lemma is_word_unat:
  "is_word c \<longleftrightarrow> (65 \<le> unat c \<and> unat c \<le> 90) \<or> (97 \<le> unat c \<and> unat c \<le> 122) \<or>
     (48 \<le> unat c \<and> unat c \<le> 57) \<or> unat c = 95"
  by (simp add: is_word_def is_upper_def is_lower_def is_digit_def word_le_nat_alt
      word_unat_eq_iff[of c])

lemma is_space_unat:
  "is_space c \<Longrightarrow> unat c \<le> 32 \<or> 160 \<le> unat c"
  by (auto simp add: is_space_def word_le_nat_alt)


lemma word_not_space: "is_word c \<Longrightarrow> \<not> is_space c"
  using is_space_unat[of c] by (auto simp: is_word_unat)

lemma digit_not_space: "is_digit c \<Longrightarrow> \<not> is_space c"
  using is_space_unat[of c] by (auto simp: is_digit_unat)

lemma dash_not_space: "is_dash c \<Longrightarrow> \<not> is_space c"
  by (auto simp: is_dash_def en_dash_def is_space_def)

lemma punct_classes: "\<not> is_word 0x2C" "\<not> is_digit 0x2C" "\<not> is_digit 0x3A"
  by (simp_all add: is_word_def is_upper_def is_lower_def is_digit_def)

text \<open>What may follow a greedy run of a class: nothing, or a character outside it.\<close>

lemma stops_app:
  assumes "xs \<noteq> []" "list_all P xs" "\<And>c. P c \<Longrightarrow> \<not> Q c"
  shows "xs @ r = [] \<or> \<not> Q (hd (xs @ r))"
  using assms by (cases xs) auto

lemma stops_word:
  "word_token w \<Longrightarrow> w @ r = [] \<or> \<not> is_space (hd (w @ r))"
  unfolding word_token_def by (rule stops_app[where P = is_word]) (auto simp: word_not_space)

lemma stops_space:
  "spaces1 w \<Longrightarrow> w @ r = [] \<or> \<not> is_word (hd (w @ r))"
  unfolding spaces1_def by (rule stops_app[where P = is_space]) (auto simp: word_not_space)

lemma stops_digit:
  "digit_token w \<Longrightarrow> w @ r = [] \<or> \<not> is_space (hd (w @ r))"
  unfolding digit_token_def
  by (rule stops_app[where P = is_digit]) (auto simp: digit_not_space)

lemma stops_meridiem:
  "is_meridiem p \<Longrightarrow> p @ r = [] \<or> \<not> is_space (hd (p @ r))"
  using is_meridiem_not_space[of p] is_meridiem_length[of p] by (cases p) auto

section \<open>\<open>parseTime\<close>\<close>

lemma match_time_run:
  assumes "digit_token hs" "minute_token ms" "spaces ws" "is_meridiem p"
  shows "match_time (hs @ js '':'' @ ms @ ws @ p) = Some (hs, ms, p)"
proof -
  have 1: "digits12 (hs @ 0x3A # ms @ ws @ p) = Some (hs, 0x3A # ms @ ws @ p)"
    using assms(1) by (intro digits12_run) (simp_all add: is_digit_def)
  have 2: "digits2 (ms @ ws @ p) = Some (ms, ws @ p)"
    using assms(2) by (rule digits2_run)
  have 3: "many is_space 0 (ws @ p) = Some (ws, p)"
    using assms(3,4) by (intro many_run is_meridiem_not_space) (simp_all add: spaces_def)
  have 4: "meridiem p = Some (p, [])"
    using meridiem_run[OF assms(4), of "[]"] by simp
  show ?thesis
    by (simp add: match_time_def js_def 1 2 3 4 lit_run at_end_def)
qed

lemma match_time_Some:
  assumes "match_time s = Some (hs, ms, p)"
  shows "\<exists>ws. s = hs @ js '':'' @ ms @ ws @ p \<and> digit_token hs \<and> minute_token ms \<and>
              spaces ws \<and> is_meridiem p"
proof -
  from assms obtain s1 x s2 s3 ws s4 s5 where
    a: "digits12 s = Some (hs, s1)" and b: "lit 0x3A s1 = Some (x, s2)" and
    c: "digits2 s2 = Some (ms, s3)" and d: "many is_space 0 s3 = Some (ws, s4)" and
    e: "meridiem s4 = Some (p, s5)" and f: "at_end s5"
    by (auto simp: match_time_def bind_eq_Some_conv split: if_splits)
  from digits12_Some[OF a] lit_Some[OF b] digits2_Some[OF c] many_Some[OF d] meridiem_Some[OF e] f
  show ?thesis by (auto simp: js_def at_end_def spaces_def)
qed

text \<open>
  C7. \<open>parseTime\<close> on every token \<open>H:MM\<close>, optional white space, marker in either case:
  an hour outside 1 to 12 gives no match; otherwise PM adds 12 except at 12, and AM passes
  the hour through except that 12 becomes 0. A token that parses has this form, with an
  hour from 1 to 12. \<open>12:00 AM\<close> is hour 0, \<open>12:00 PM\<close> hour 12, \<open>1:00pm\<close> hour 13.
\<close>

theorem parseTime_spec:
  "(digit_token hs \<and> minute_token ms \<and> spaces ws \<and> is_meridiem p \<longrightarrow>
      parseTime (hs @ js '':'' @ ms @ ws @ p) =
        (if parseInt hs < 1 \<or> 12 < parseInt hs then None
         else Some \<lparr>hours =
                      (if toUpperCase p = js ''PM''
                       then (if parseInt hs = 12 then 12 else parseInt hs + 12)
                       else (if parseInt hs = 12 then 0 else parseInt hs)),
                    minutes = parseInt ms\<rparr>)) \<and>
   (parseTime s = Some t \<longrightarrow>
      (\<exists>hs ms ws p. s = hs @ js '':'' @ ms @ ws @ p \<and> digit_token hs \<and> minute_token ms \<and>
         spaces ws \<and> is_meridiem p \<and> 1 \<le> parseInt hs \<and> parseInt hs \<le> 12)) \<and>
   parseTime (js ''12:00 AM'') = Some \<lparr>hours = 0, minutes = 0\<rparr> \<and>
   parseTime (js ''12:00 PM'') = Some \<lparr>hours = 12, minutes = 0\<rparr> \<and>
   parseTime (js ''1:00pm'') = Some \<lparr>hours = 13, minutes = 0\<rparr>"
proof (intro conjI impI)
  assume wf: "digit_token hs \<and> minute_token ms \<and> spaces ws \<and> is_meridiem p"
  then have m: "match_time (hs @ js '':'' @ ms @ ws @ p) = Some (hs, ms, p)"
    by (simp add: match_time_run)
  from wf have "toUpperCase p = js ''PM'' \<or> toUpperCase p = js ''AM''"
    by (auto simp: is_meridiem_def)
  moreover have "js ''PM'' \<noteq> js ''AM''" by (simp add: js_def)
  ultimately show "parseTime (hs @ js '':'' @ ms @ ws @ p) =
        (if parseInt hs < 1 \<or> 12 < parseInt hs then None
         else Some \<lparr>hours =
                      (if toUpperCase p = js ''PM''
                       then (if parseInt hs = 12 then 12 else parseInt hs + 12)
                       else (if parseInt hs = 12 then 0 else parseInt hs)),
                    minutes = parseInt ms\<rparr>)"
    unfolding parseTime_def m by (auto simp: Let_def)
next
  assume "parseTime s = Some t"
  then obtain hs ms p where m: "match_time s = Some (hs, ms, p)"
    and h: "\<not> (parseInt hs < 1 \<or> parseInt hs > 12)"
    by (auto simp: parseTime_def Let_def split: option.splits if_splits)
  from match_time_Some[OF m] h
  show "\<exists>hs ms ws p. s = hs @ js '':'' @ ms @ ws @ p \<and> digit_token hs \<and> minute_token ms \<and>
         spaces ws \<and> is_meridiem p \<and> 1 \<le> parseInt hs \<and> parseInt hs \<le> 12"
    by (metis not_less)
qed (simp_all add: parseTime_def match_time_def scan_defs)

theorem parseTime_spec_witness:
  "digit_token (js ''1'') \<and> minute_token (js ''05'') \<and> spaces (js '' '') \<and>
   is_meridiem (js ''pM'') \<and>
   parseTime (js ''1'' @ js '':'' @ js ''05'' @ js '' '' @ js ''pM'') =
     Some \<lparr>hours = 13, minutes = 5\<rparr> \<and>
   parseTime (js ''11:59 PM'') = Some \<lparr>hours = 23, minutes = 59\<rparr> \<and>
   (\<exists>hs ms ws p. js ''11:59 PM'' = hs @ js '':'' @ ms @ ws @ p \<and> digit_token hs \<and>
      minute_token ms \<and> spaces ws \<and> is_meridiem p \<and> 1 \<le> parseInt hs \<and> parseInt hs \<le> 12)"
proof -
  have e: "parseTime (js ''11:59 PM'') = Some \<lparr>hours = 23, minutes = 59\<rparr>"
    by (simp add: parseTime_def match_time_def scan_defs)
  have w: "digit_token (js ''1'') \<and> minute_token (js ''05'') \<and> spaces (js '' '') \<and>
      is_meridiem (js ''pM'')"
    by (simp add: token_defs scan_defs)
  have v: "parseInt (js ''1'') = 1 \<and> parseInt (js ''05'') = 5 \<and>
      toUpperCase (js ''pM'') = js ''PM''"
    by (simp add: scan_defs)
  show ?thesis
    using parseTime_spec[of "js ''1''" "js ''05''" "js '' ''" "js ''pM''" "js ''11:59 PM''"
        "\<lparr>hours = 23, minutes = 59\<rparr>"] e w v
    by simp
qed

section \<open>The pattern of \<open>parseEventDateTime\<close>\<close>

text \<open>
  The scan \<open>match_event\<close> accepts exactly the texts of the regular expression, written
  out as \<open>render t\<close> for a well-formed \<open>t\<close>, and returns their captured pieces.
\<close>

lemma match_event_render:
  assumes "well_formed t"
  shows "match_event (render t) = Some (groups_of t)"
proof -
  from assms have
    wd: "word_token (weekday t)" and s1: "spaces1 (sp1 t)" and mo: "word_token (month_name t)" and
    s2: "spaces1 (sp2 t)" and dy: "digit_token (day_digits t)" and s3: "spaces1 (sp3 t)" and
    sh: "digit_token (start_hour t)" and sm: "minute_token (start_min t)" and
    s4: "spaces (sp4 t)" and da: "is_dash (dash t)" and s5: "spaces (sp5 t)" and
    eh: "digit_token (end_hour t)" and em: "minute_token (end_min t)" and
    s6: "spaces (sp6 t)" and mk: "is_meridiem (marker t)" and s7: "spaces1 (sp7 t)" and
    zn: "word_token (zone t)"
    by (simp_all add: well_formed_def)
  note run = many_run digits12_run digits2_run meridiem_run one_run lit_run
  have w: "\<And>w r. word_token w \<Longrightarrow> r = [] \<or> \<not> is_word (hd r) \<Longrightarrow>
             many is_word (Suc 0) (w @ r) = Some (w, r)"
    by (rule many_run) (auto simp: word_token_def Suc_le_eq)
  have sp: "\<And>w r. spaces1 w \<Longrightarrow> r = [] \<or> \<not> is_space (hd r) \<Longrightarrow>
             many is_space (Suc 0) (w @ r) = Some (w, r)"
    by (rule many_run) (auto simp: spaces1_def Suc_le_eq)
  have sp0: "\<And>w r. spaces w \<Longrightarrow> r = [] \<or> \<not> is_space (hd r) \<Longrightarrow>
             many is_space 0 (w @ r) = Some (w, r)"
    by (rule many_run) (auto simp: spaces_def)
  have z: "many is_word (Suc 0) (zone t) = Some (zone t, [])"
    using w[OF zn, of "[]"] by simp
  have z7: "many is_space (Suc 0) (sp7 t @ zone t) = Some (sp7 t, zone t)"
    using sp[OF s7 stops_word[OF zn, of "[]"]] by simp
  show ?thesis
    unfolding match_event_def render_def groups_of_def js_def
    by (simp add: w[OF wd] punct_classes lit_run
        sp[OF s1 stops_word[OF mo]] w[OF mo stops_space[OF s2]]
        sp[OF s2 stops_digit[OF dy]] digits12_run[OF dy]
        sp[OF s3 stops_digit[OF sh]] digits12_run[OF sh] digits2_run[OF sm]
        sp0[OF s4] dash_not_space[OF da] one_run[where P = is_dash, OF da]
        sp0[OF s5 stops_digit[OF eh]] digits12_run[OF eh] digits2_run[OF em]
        sp0[OF s6 stops_meridiem[OF mk]] meridiem_run[OF mk]
        z7 z at_end_def)
qed



lemma many_SomeD:
  "many P lo s = Some (xs, r) \<Longrightarrow> s = xs @ r \<and> list_all P xs \<and> lo \<le> length xs"
  using many_Some[of P lo s xs r] by simp

lemma match_event_Some:
  assumes "match_event s = Some g"
  shows "\<exists>t. well_formed t \<and> render t = s \<and> groups_of t = g"
proof -
  from assms obtain wd s1 c1 s2 p1 s3 g1 s4 p2 s5 g2 s6 c2 s7 p3 s8 g3 s9 c3 s10 g4 s11
      p4 s12 d s13 p5 s14 g5 s15 c4 s16 g6 s17 p6 s18 g7 s19 p7 s20 g8 s21 where
    a1: "many is_word 1 s = Some (wd, s1)" and a2: "lit 0x2C s1 = Some (c1, s2)" and
    a3: "many is_space 1 s2 = Some (p1, s3)" and a4: "many is_word 1 s3 = Some (g1, s4)" and
    a5: "many is_space 1 s4 = Some (p2, s5)" and a6: "digits12 s5 = Some (g2, s6)" and
    a7: "lit 0x2C s6 = Some (c2, s7)" and a8: "many is_space 1 s7 = Some (p3, s8)" and
    a9: "digits12 s8 = Some (g3, s9)" and a10: "lit 0x3A s9 = Some (c3, s10)" and
    a11: "digits2 s10 = Some (g4, s11)" and a12: "many is_space 0 s11 = Some (p4, s12)" and
    a13: "one is_dash s12 = Some (d, s13)" and a14: "many is_space 0 s13 = Some (p5, s14)" and
    a15: "digits12 s14 = Some (g5, s15)" and a16: "lit 0x3A s15 = Some (c4, s16)" and
    a17: "digits2 s16 = Some (g6, s17)" and a18: "many is_space 0 s17 = Some (p6, s18)" and
    a19: "meridiem s18 = Some (g7, s19)" and a20: "many is_space 1 s19 = Some (p7, s20)" and
    a21: "many is_word 1 s20 = Some (g8, s21)" and a22: "at_end s21" and
    g: "g = (g1, g2, g3, g4, g5, g6, g7, g8)"
    unfolding match_event_def
    by (auto simp: bind_eq_Some_conv split: if_splits)
  from one_Some[OF a13] obtain dc where dc: "s12 = dc # s13" "is_dash dc" by auto
  let ?t = "\<lparr>weekday = wd, sp1 = p1, month_name = g1, sp2 = p2, day_digits = g2, sp3 = p3,
             start_hour = g3, start_min = g4, sp4 = p4, dash = dc, sp5 = p5,
             end_hour = g5, end_min = g6, sp6 = p6, marker = g7, sp7 = p7, zone = g8\<rparr>"
  note m = many_SomeD[OF a1] many_SomeD[OF a3] many_SomeD[OF a4] many_SomeD[OF a5]
    many_SomeD[OF a8] many_SomeD[OF a12] many_SomeD[OF a14] many_SomeD[OF a18]
    many_SomeD[OF a20] many_SomeD[OF a21]
  note o = lit_Some[OF a2] lit_Some[OF a7] lit_Some[OF a10] lit_Some[OF a16]
    digits12_Some[OF a6] digits12_Some[OF a9] digits12_Some[OF a15]
    digits2_Some[OF a11] digits2_Some[OF a17] meridiem_Some[OF a19]
  have "well_formed ?t"
    using m o dc(2) by (simp add: well_formed_def word_token_def spaces_def spaces1_def) auto
  moreover have "render ?t = s"
    using m o dc(1) a22 by (simp add: render_def js_def at_end_def)
  moreover have "groups_of ?t = g"
    by (simp add: groups_of_def g)
  ultimately show ?thesis by blast
qed


section \<open>Date arithmetic\<close>

lemma year_down_spec:
  "d < DayFromYear (y + 1) \<Longrightarrow>
   DayFromYear (year_down d y) \<le> d \<and> d < DayFromYear (year_down d y + 1)"
proof (induction d y rule: year_down.induct)
  case (1 d y)
  show ?case
  proof (cases "DayFromYear y \<le> d")
    case True
    with "1.prems" show ?thesis by (simp add: year_down.simps)
  next
    case False
    then have "d < DayFromYear (y - 1 + 1)" by simp
    from "1.IH"[OF False this] False show ?thesis
      by (subst (1 2) year_down.simps) simp
  qed
qed

lemma YearFromDay_start: "d < DayFromYear (1970 + max (d div 365) (d div 366) + 1)"
proof -
  define m where "m = max (d div 365) (d div 366)"
  have m: "d div 365 \<le> m" "d div 366 \<le> m" by (simp_all add: m_def)
  show ?thesis
  proof (cases "0 \<le> m + 1")
    case True
    then have "365 * (m + 1) \<le> DayFromYear (1970 + m + 1)"
      using DayFromYear_above[of "1970 + m + 1"] by simp
    moreover have "365 * (d div 365 + 1) \<le> 365 * (m + 1)" using m(1) by simp
    ultimately have "365 * (d div 365 + 1) \<le> DayFromYear (1970 + m + 1)" by (rule order_trans[rotated])
    with floor_365(2)[of d] show ?thesis unfolding m_def by (rule less_le_trans)
  next
    case False
    then have "366 * (m + 1) \<le> DayFromYear (1970 + m + 1)"
      using DayFromYear_below[of "1970 + m + 1"] by simp
    moreover have "366 * (d div 366 + 1) \<le> 366 * (m + 1)" using m(2) by simp
    ultimately have "366 * (d div 366 + 1) \<le> DayFromYear (1970 + m + 1)" by (rule order_trans[rotated])
    with floor_366[of d] show ?thesis unfolding m_def by (rule less_le_trans)
  qed
qed

lemma YearFromDay_spec:
  "DayFromYear (YearFromDay d) \<le> d \<and> d < DayFromYear (YearFromDay d + 1)"
  unfolding YearFromDay_def by (rule year_down_spec) (rule YearFromDay_start)

lemma YearFromDay_unique:
  assumes "DayFromYear y \<le> d" "d < DayFromYear (y + 1)"
  shows "YearFromDay d = y"
proof (rule ccontr)
  assume ne: "YearFromDay d \<noteq> y"
  let ?r = "YearFromDay d"
  from YearFromDay_spec[of d] have r: "DayFromYear ?r \<le> d" "d < DayFromYear (?r + 1)" by simp_all
  show False
  proof (cases "?r < y")
    case True
    then have "DayFromYear (?r + 1) \<le> DayFromYear y" by (intro DayFromYear_mono) simp
    with r(2) assms(1) show False by simp
  next
    case False
    with ne have "y + 1 \<le> ?r" by simp
    then have "DayFromYear (y + 1) \<le> DayFromYear ?r" by (rule DayFromYear_mono)
    with r(1) assms(2) show False by simp
  qed
qed

lemma YearFromDay_within:
  "0 \<le> k \<Longrightarrow> k < DaysInYear y \<Longrightarrow> YearFromDay (DayFromYear y + k) = y"
  by (rule YearFromDay_unique) (simp_all add: DayFromYear_step)

lemma day_time_split:
  assumes "0 \<le> tm" "tm < msPerDay"
  shows "Day (d * msPerDay + tm) = d"
  using assms by (simp add: Day_def msPerDay_def div_pos_pos_trivial)

lemma fields_of_day_time:
  assumes "0 \<le> k" "k < DaysInYear y" "0 \<le> tm" "tm < msPerDay"
  shows "YearFromTime ((DayFromYear y + k) * msPerDay + tm) = y"
    and "DayWithinYear ((DayFromYear y + k) * msPerDay + tm) = k"
    and "InLeapYear ((DayFromYear y + k) * msPerDay + tm) = (if DaysInYear y = 366 then 1 else 0)"
proof -
  let ?t = "(DayFromYear y + k) * msPerDay + tm"
  have d: "Day ?t = DayFromYear y + k" using assms(3,4) by (rule day_time_split)
  show y: "YearFromTime ?t = y"
    unfolding YearFromTime_def d using assms(1,2) by (rule YearFromDay_within)
  show "DayWithinYear ?t = k" unfolding DayWithinYear_def y d by simp
  show "InLeapYear ?t = (if DaysInYear y = 366 then 1 else 0)" unfolding InLeapYear_def y ..
qed

lemma month_disj:
  fixes m :: int
  assumes "0 \<le> m" "m \<le> 11"
  shows "m = 0 \<or> m = 1 \<or> m = 2 \<or> m = 3 \<or> m = 4 \<or> m = 5 \<or> m = 6 \<or> m = 7 \<or>
         m = 8 \<or> m = 9 \<or> m = 10 \<or> m = 11"
  using assms by arith

lemma month_cases:
  fixes m :: int
  assumes "0 \<le> m" "m \<le> 11"
  obtains "m = 0" | "m = 1" | "m = 2" | "m = 3" | "m = 4" | "m = 5" | "m = 6" | "m = 7"
    | "m = 8" | "m = 9" | "m = 10" | "m = 11"
  using month_disj[OF assms] by blast

lemma month_day_in_year:
  assumes "0 \<le> m" "m \<le> 11" "1 \<le> dd" "dd \<le> DaysInMonth y m"
  shows "0 \<le> month_start (if DaysInYear y = 366 then 1 else 0) m + dd - 1 \<and>
         month_start (if DaysInYear y = 366 then 1 else 0) m + dd - 1 < DaysInYear y"
  using month_disj[OF assms(1,2)] assms(3,4) DaysInYear_bounds[of y]
  apply (elim disjE)
  apply (simp_all add: month_start_def DaysInMonth_def)
  apply (cases "DaysInYear y = 366"; simp)
  done

lemma month_of_day_in_year:
  assumes "0 \<le> m" "m \<le> 11" "1 \<le> dd" "dd \<le> DaysInMonth y m"
    and "DayWithinYear t = month_start (if DaysInYear y = 366 then 1 else 0) m + dd - 1"
    and "InLeapYear t = (if DaysInYear y = 366 then 1 else 0)"
  shows "MonthFromTime t = m" and "DateFromTime t = dd"
proof -
  show m: "MonthFromTime t = m"
    unfolding MonthFromTime_def assms(5,6) Let_def
    using month_disj[OF assms(1,2)] assms(3,4)
    apply (elim disjE)
    apply (simp_all add: month_start_def DaysInMonth_def)
    apply (cases "DaysInYear y = 366"; simp)
    done
  show "DateFromTime t = dd"
    unfolding DateFromTime_def m assms(5,6) by simp
qed


lemma time_fields:
  assumes "0 \<le> h" "h \<le> 23" "0 \<le> mi" "mi \<le> 59"
  shows "0 \<le> MakeTime h mi 0 0" and "MakeTime h mi 0 0 < msPerDay"
    and "HourFromTime (d * msPerDay + MakeTime h mi 0 0) = h"
    and "MinFromTime (d * msPerDay + MakeTime h mi 0 0) = mi"
    and "SecFromTime (d * msPerDay + MakeTime h mi 0 0) = 0"
proof -
  show "0 \<le> MakeTime h mi 0 0" "MakeTime h mi 0 0 < msPerDay"
    using assms by (simp_all add: MakeTime_def msPerDay_def msPerHour_def msPerMinute_def)
  have h: "d * msPerDay + MakeTime h mi 0 0 = (d * 24 + h) * msPerHour + mi * msPerMinute"
    by (simp add: MakeTime_def msPerDay_def msPerHour_def msPerMinute_def algebra_simps)
  have "(d * msPerDay + MakeTime h mi 0 0) div msPerHour = d * 24 + h"
    unfolding h using assms(3,4)
    by (simp add: msPerHour_def msPerMinute_def div_pos_pos_trivial)
  then show "HourFromTime (d * msPerDay + MakeTime h mi 0 0) = h"
    using assms(1,2) by (simp add: HourFromTime_def mod_pos_pos_trivial)
  have m: "d * msPerDay + MakeTime h mi 0 0 = ((d * 24 + h) * 60 + mi) * msPerMinute"
    by (simp add: MakeTime_def msPerDay_def msPerHour_def msPerMinute_def algebra_simps)
  have dm: "(d * msPerDay + MakeTime h mi 0 0) div msPerMinute = (d * 24 + h) * 60 + mi"
    unfolding m by (simp add: msPerMinute_def)
  have "((d * 24 + h) * 60 + mi) mod 60 = mi mod 60" by (rule mod_mult_self3)
  also have "\<dots> = mi" using assms(3,4) by (simp add: mod_pos_pos_trivial)
  finally show "MinFromTime (d * msPerDay + MakeTime h mi 0 0) = mi"
    unfolding MinFromTime_def dm .
  have s: "d * msPerDay + MakeTime h mi 0 0 = (((d * 24 + h) * 60 + mi) * 60) * msPerSecond"
    by (simp add: MakeTime_def msPerDay_def msPerHour_def msPerMinute_def msPerSecond_def algebra_simps)
  show "SecFromTime (d * msPerDay + MakeTime h mi 0 0) = 0"
    unfolding s by (simp add: SecFromTime_def msPerSecond_def)
qed


lemma DayFromYear_range:
  assumes "100 \<le> y" "y \<le> 275000"
  shows "- 684420 \<le> DayFromYear y" and "DayFromYear y \<le> 99928980"
proof -
  show "- 684420 \<le> DayFromYear y"
  proof (cases "y \<le> 1970")
    case True
    from DayFromYear_below[OF True] assms(1) show ?thesis by simp
  next
    case False
    then have "1970 \<le> y" by simp
    from DayFromYear_above[OF this] False show ?thesis by simp
  qed
  show "DayFromYear y \<le> 99928980"
  proof (cases "y \<le> 1970")
    case True
    from DayFromYear_below[OF True] show ?thesis by simp
  next
    case False
    then have "1970 \<le> y" by simp
    from DayFromYear_above[OF this] assms(2) show ?thesis by simp
  qed
qed

lemma new_Date_value:
  assumes "100 \<le> y" "y \<le> 275000" "0 \<le> m" "m \<le> 11" "1 \<le> dd" "dd \<le> DaysInMonth y m"
    and "0 \<le> h" "h \<le> 23" "0 \<le> mi" "mi \<le> 59"
  shows "new_Date y m dd h mi =
         Some ((DayFromYear y + (month_start (if DaysInYear y = 366 then 1 else 0) m + dd - 1)) * msPerDay
               + MakeTime h mi 0 0)"
proof -
  let ?l = "if DaysInYear y = 366 then 1 else (0::int)"
  let ?k = "month_start ?l m + dd - 1"
  let ?tm = "MakeTime h mi 0 0"
  have mm: "m div 12 = 0" "m mod 12 = m"
    using assms(3,4) by (simp_all add: div_pos_pos_trivial mod_pos_pos_trivial)
  from month_day_in_year[OF assms(3-6)] DaysInYear_bounds(2)[of y]
  have k: "0 \<le> ?k" "?k \<le> 365" by simp_all
  from assms(5) k have ms: "month_start ?l m \<le> 365" by simp
  have ms0: "0 \<le> month_start ?l m"
    using month_disj[OF assms(3,4)] by (elim disjE) (simp_all add: month_start_def)
  note D = DayFromYear_range[OF assms(1,2)]
  have first: "\<bar>(DayFromYear y + month_start ?l m) * msPerDay\<bar> \<le> 8640000000000000"
    using D ms ms0 unfolding msPerDay_def by simp
  have day: "MakeDay y m dd = Some (DayFromYear y + ?k)"
    using first by (simp add: MakeDay_def mm Let_def)
  from time_fields(1,2)[OF assms(7-10)]
  have tm: "0 \<le> ?tm" "?tm < 86400000" by (simp_all add: msPerDay_def)
  have clip: "\<not> \<bar>(DayFromYear y + ?k) * msPerDay + ?tm\<bar> > 8640000000000000"
    using D k tm unfolding msPerDay_def by simp
  show ?thesis
    using assms(1) clip by (simp add: new_Date_def day MakeDate_def TimeClip_def UTC_def LocalTZA_def)
qed

lemma new_Date_fields:
  assumes "100 \<le> y" "y \<le> 275000" "0 \<le> m" "m \<le> 11" "1 \<le> dd" "dd \<le> DaysInMonth y m"
    and "0 \<le> h" "h \<le> 23" "0 \<le> mi" "mi \<le> 59"
  shows "getFullYear (new_Date y m dd h mi) = Some y"
    and "getMonth (new_Date y m dd h mi) = Some m"
    and "getDate (new_Date y m dd h mi) = Some dd"
    and "getHours (new_Date y m dd h mi) = Some h"
    and "getMinutes (new_Date y m dd h mi) = Some mi"
    and "getSeconds (new_Date y m dd h mi) = Some 0"
proof -
  let ?l = "if DaysInYear y = 366 then 1 else (0::int)"
  let ?k = "month_start ?l m + dd - 1"
  let ?tm = "MakeTime h mi 0 0"
  let ?t = "(DayFromYear y + ?k) * msPerDay + ?tm"
  note v = new_Date_value[OF assms]
  from month_day_in_year[OF assms(3-6)] have k: "0 \<le> ?k" "?k < DaysInYear y" by simp_all
  note tm = time_fields[OF assms(7-10)]
  note f = fields_of_day_time[OF k tm(1,2)]
  note md = month_of_day_in_year[OF assms(3-6) f(2) f(3)]
  show "getFullYear (new_Date y m dd h mi) = Some y"
    unfolding v by (simp add: getFullYear_def LocalTime_def LocalTZA_def f(1))
  show "getMonth (new_Date y m dd h mi) = Some m"
    unfolding v by (simp add: getMonth_def LocalTime_def LocalTZA_def md(1))
  show "getDate (new_Date y m dd h mi) = Some dd"
    unfolding v by (simp add: getDate_def LocalTime_def LocalTZA_def md(2))
  show "getHours (new_Date y m dd h mi) = Some h"
    unfolding v by (simp add: getHours_def LocalTime_def LocalTZA_def tm(3))
  show "getMinutes (new_Date y m dd h mi) = Some mi"
    unfolding v by (simp add: getMinutes_def LocalTime_def LocalTZA_def tm(4))
  show "getSeconds (new_Date y m dd h mi) = Some 0"
    unfolding v by (simp add: getSeconds_def LocalTime_def LocalTZA_def tm(5))
qed

section \<open>\<open>parseEventDateTime\<close>\<close>

lemma render_nonempty: "well_formed t \<Longrightarrow> render t \<noteq> []"
  by (simp add: well_formed_def word_token_def render_def)

lemma code_hour_eq_spec:
  "(if pm \<and> h \<noteq> 12 then h + 12 else if \<not> pm \<and> h = 12 then 0 else h) = spec_hour24 pm h"
  by (simp add: spec_hour24_def)

text \<open>The result on a text of the accepted form.\<close>

lemma parse_render:
  assumes "well_formed t"
  shows "parseEventDateTime (JS_string (render t)) y =
     (case MONTHS (take 3 (toLowerCase (month_name t))) of
        None \<Rightarrow> None
      | Some mo \<Rightarrow>
          Some \<lparr>startDate =
                   new_Date (if mo < 11 then y + 1 else y) (int mo) (int (parseInt (day_digits t)))
                     (int (spec_hour24 (toUpperCase (marker t) = js ''PM'') (parseInt (start_hour t))))
                     (int (parseInt (start_min t))),
                 endDate =
                   new_Date (if mo < 11 then y + 1 else y) (int mo) (int (parseInt (day_digits t)))
                     (int (spec_hour24 (toUpperCase (marker t) = js ''PM'') (parseInt (end_hour t))))
                     (int (parseInt (end_min t))),
                 timezone = toUpperCase (zone t)\<rparr>)"
  unfolding parseEventDateTime_def
  by (simp add: render_nonempty[OF assms] match_event_render[OF assms] groups_of_def Let_def
      code_hour_eq_spec split: option.split)

text \<open>Only texts of the accepted form with a known month give a result.\<close>

lemma parse_Some:
  assumes "parseEventDateTime v y = Some r"
  shows "\<exists>t mo. v = JS_string (render t) \<and> well_formed t \<and>
           MONTHS (take 3 (toLowerCase (month_name t))) = Some mo"
proof -
  from assms obtain s g mo where v: "v = JS_string s" and m: "match_event s = Some g"
    and mo: "MONTHS (take 3 (toLowerCase (fst g))) = Some mo"
    by (auto simp: parseEventDateTime_def split: js_value.splits if_splits option.splits)
  from match_event_Some[OF m] obtain t where t: "well_formed t" "render t = s" "groups_of t = g"
    by blast
  from t(3) have "fst g = month_name t" by (auto simp: groups_of_def)
  with v t mo show ?thesis by auto
qed


text \<open>
  So the inputs that parse are exactly the texts of the accepted form with a known month,
  and such a text has one decomposition only as far as its captured pieces go.
\<close>

lemma parse_Some_iff:
  "parseEventDateTime v y \<noteq> None \<longleftrightarrow>
   (\<exists>t. well_formed t \<and> v = JS_string (render t) \<and>
        MONTHS (take 3 (toLowerCase (month_name t))) \<noteq> None)"
proof
  assume "parseEventDateTime v y \<noteq> None"
  then obtain r where "parseEventDateTime v y = Some r" by auto
  from parse_Some[OF this] show "\<exists>t. well_formed t \<and> v = JS_string (render t) \<and>
        MONTHS (take 3 (toLowerCase (month_name t))) \<noteq> None"
    by auto
next
  assume "\<exists>t. well_formed t \<and> v = JS_string (render t) \<and>
        MONTHS (take 3 (toLowerCase (month_name t))) \<noteq> None"
  then show "parseEventDateTime v y \<noteq> None"
    by (auto simp: parse_render)
qed

lemma render_groups_unique:
  assumes "well_formed t" "well_formed t'" "render t = render t'"
  shows "groups_of t = groups_of t'"
  using match_event_render[OF assms(1)] match_event_render[OF assms(2)] assms(3) by simp

lemma MONTHS_Some_iff: "MONTHS key = Some k \<longleftrightarrow> k < 12 \<and> key = month_abbrevs ! k"
proof
  assume "MONTHS key = Some k"
  then show "k < 12 \<and> key = month_abbrevs ! k"
    by (auto simp: MONTHS_def month_abbrevs_def js_def split: if_splits)
next
  assume a: "k < 12 \<and> key = month_abbrevs ! k"
  then have "k < 12" by simp
  then have "k = 0 \<or> k = 1 \<or> k = 2 \<or> k = 3 \<or> k = 4 \<or> k = 5 \<or> k = 6 \<or> k = 7 \<or> k = 8 \<or>
      k = 9 \<or> k = 10 \<or> k = 11" by arith
  with a show "MONTHS key = Some k"
    by (elim disjE) (simp_all add: MONTHS_def month_abbrevs_def js_def)
qed

lemma MONTHS_None_iff: "MONTHS key = None \<longleftrightarrow> key \<notin> set month_abbrevs"
  by (simp add: MONTHS_def month_abbrevs_def map_of_eq_None_iff)


lemma marker_AM_or_PM:
  "well_formed t \<Longrightarrow> toUpperCase (marker t) = js ''PM'' \<or> toUpperCase (marker t) = js ''AM''"
  by (auto simp: well_formed_def is_meridiem_def)

lemma AM_not_PM: "js ''AM'' \<noteq> js ''PM''"
  by (simp add: js_def)

text \<open>
  C1. On every text of the accepted form whose month is known, both instants are built
  with hours converted by the single marker: with PM a start hour of 12 stays 12 and
  every other start hour has 12 added; with AM a start hour of 12 becomes 0 and every
  other start hour is unchanged. The end hour has 12 added when the marker is PM and the
  hour is not 12, becomes 0 when the marker is AM and the hour is 12, and is otherwise
  unchanged. The marker is one of the two.
\<close>

theorem shared_meridiem_inference:
  assumes "well_formed t" and "MONTHS (take 3 (toLowerCase (month_name t))) = Some mo"
  shows
    "let PM = (toUpperCase (marker t) = js ''PM'');
         AM = (toUpperCase (marker t) = js ''AM'');
         sh = parseInt (start_hour t);
         eh = parseInt (end_hour t);
         instant = (\<lambda>h mins. new_Date (if mo < 11 then y + 1 else y) (int mo)
                      (int (parseInt (day_digits t))) (int h) (int (parseInt mins)))
     in (PM \<or> AM) \<and>
        (\<exists>r. parseEventDateTime (JS_string (render t)) y = Some r \<and>
           (PM \<longrightarrow> startDate r = instant (if sh = 12 then 12 else sh + 12) (start_min t)) \<and>
           (AM \<longrightarrow> startDate r = instant (if sh = 12 then 0 else sh) (start_min t)) \<and>
           endDate r = instant (if PM \<and> eh \<noteq> 12 then eh + 12
                                else if AM \<and> eh = 12 then 0 else eh) (end_min t))"
  using marker_AM_or_PM[OF assms(1)] AM_not_PM
  by (auto simp: parse_render[OF assms(1)] assms(2) Let_def spec_hour24_def)

theorem shared_meridiem_inference_witness:
  "well_formed \<lparr>weekday = js ''Friday'', sp1 = js '' '', month_name = js ''Dec'', sp2 = js '' '',
      day_digits = js ''5'', sp3 = js '' '', start_hour = js ''12'', start_min = js ''00'',
      sp4 = js '' '', dash = en_dash, sp5 = js '' '', end_hour = js ''1'', end_min = js ''30'',
      sp6 = js '' '', marker = js ''PM'', sp7 = js '' '', zone = js ''EST''\<rparr> \<and>
   MONTHS (take 3 (toLowerCase (js ''Dec''))) = Some 11 \<and>
   (\<exists>r. parseEventDateTime
          (JS_string (js ''Friday, Dec 5, 12:00 '' @ [en_dash] @ js '' 1:30 PM EST'')) 2025 = Some r \<and>
        startDate r = new_Date 2025 11 5 12 0 \<and> endDate r = new_Date 2025 11 5 13 30)"
proof -
  let ?t = "\<lparr>weekday = js ''Friday'', sp1 = js '' '', month_name = js ''Dec'', sp2 = js '' '',
      day_digits = js ''5'', sp3 = js '' '', start_hour = js ''12'', start_min = js ''00'',
      sp4 = js '' '', dash = en_dash, sp5 = js '' '', end_hour = js ''1'', end_min = js ''30'',
      sp6 = js '' '', marker = js ''PM'', sp7 = js '' '', zone = js ''EST''\<rparr>"
  have wf: "well_formed ?t"
    by (simp add: well_formed_def token_defs scan_defs)
  have mo: "MONTHS (take 3 (toLowerCase (month_name ?t))) = Some 11"
    by (simp add: MONTHS_def scan_defs)
  have r: "render ?t = js ''Friday, Dec 5, 12:00 '' @ [en_dash] @ js '' 1:30 PM EST''"
    by (simp add: render_def js_def)
  have v: "parseInt (js ''5'') = 5" "parseInt (js ''12'') = 12" "parseInt (js ''00'') = 0"
    "parseInt (js ''1'') = 1" "parseInt (js ''30'') = 30" "toUpperCase (js ''PM'') = js ''PM''"
    by (simp_all add: scan_defs)
  from shared_meridiem_inference[OF wf mo, of 2025] wf mo
  show ?thesis
    unfolding r by (simp add: v Let_def AM_not_PM[symmetric])
qed

text \<open>
  C9. A first argument that is not a string, or is the empty string, gives no match.
\<close>

theorem non_string_guard:
  "(\<forall>s. v \<noteq> JS_string s) \<or> v = JS_string [] \<Longrightarrow> parseEventDateTime v y = None"
  by (cases v) (auto simp: parseEventDateTime_def)

theorem non_string_guard_witness:
  "(\<forall>s. (JS_null :: unit js_value) \<noteq> JS_string s) \<and>
   parseEventDateTime (JS_null :: unit js_value) 2025 = None \<and>
   parseEventDateTime (JS_undefined :: unit js_value) 2025 = None \<and>
   parseEventDateTime (JS_other () :: unit js_value) 2025 = None \<and>
   parseEventDateTime (JS_string [] :: unit js_value) 2025 = None"
  using non_string_guard[of "JS_null :: unit js_value" 2025]
    non_string_guard[of "JS_undefined :: unit js_value" 2025]
    non_string_guard[of "JS_other () :: unit js_value" 2025]
    non_string_guard[of "JS_string [] :: unit js_value" 2025]
  by simp

lemma toUpperCase_id: "list_all (\<lambda>c. \<not> is_lower c) s \<Longrightarrow> toUpperCase s = s"
  by (induction s) (simp_all add: toUpperCase_def)

text \<open>
  C4, as the code has it. The \<open>timezone\<close> field of every result is the timezone token of
  the text converted to upper case; a token without lower-case letters is carried
  through unchanged.
\<close>

theorem timezone_upper_cased:
  assumes "parseEventDateTime v y = Some r"
  shows "\<exists>t. well_formed t \<and> v = JS_string (render t) \<and> timezone r = toUpperCase (zone t) \<and>
             (list_all (\<lambda>c. \<not> is_lower c) (zone t) \<longrightarrow> timezone r = zone t)"
proof -
  from parse_Some[OF assms] obtain t mo where
    t: "v = JS_string (render t)" "well_formed t"
       "MONTHS (take 3 (toLowerCase (month_name t))) = Some mo"
    by blast
  from assms have "timezone r = toUpperCase (zone t)"
    unfolding t(1) parse_render[OF t(2)] t(3) by auto
  with t show ?thesis by (auto simp: toUpperCase_id)
qed

text \<open>
  The claim as stated, that the token is carried through with no case change, fails on
  a text that ends in \<open>est\<close>: the field is \<open>EST\<close>.
\<close>

theorem timezone_verbatim_counterexample:
  "map_option timezone
     (parseEventDateTime (JS_string (js ''Monday, Dec 8, 1:00 - 2:00 PM est'') :: unit js_value) 2025)
   = Some (js ''EST'') \<and> js ''EST'' \<noteq> js ''est''"
  by (simp add: parseEventDateTime_def match_event_def MONTHS_def scan_defs)

theorem timezone_upper_cased_witness:
  "parseEventDateTime (JS_string (js ''Monday, Dec 8, 1:00 - 2:00 PM est'') :: unit js_value) 2025 =
     Some \<lparr>startDate = new_Date 2025 11 8 13 0, endDate = new_Date 2025 11 8 14 0,
           timezone = js ''EST''\<rparr> \<and>
   (\<exists>t. well_formed t \<and> js ''Monday, Dec 8, 1:00 - 2:00 PM est'' = render t \<and>
        js ''EST'' = toUpperCase (zone t))"
proof -
  have p: "parseEventDateTime (JS_string (js ''Monday, Dec 8, 1:00 - 2:00 PM est'') :: unit js_value) 2025 =
     Some \<lparr>startDate = new_Date 2025 11 8 13 0, endDate = new_Date 2025 11 8 14 0,
           timezone = js ''EST''\<rparr>"
    by (simp add: parseEventDateTime_def match_event_def MONTHS_def scan_defs)
  from timezone_upper_cased[OF p] p show ?thesis by auto
qed

text \<open>
  C10. Only the first three letters of the month token, lower-cased, are looked at. On a
  text of the accepted form, a token whose first three letters are the \<open>k\<close>-th of the
  twelve abbreviations gives a result whose instants are built with month \<open>k\<close>, whatever
  follows the three letters; any other token gives no match.
\<close>

theorem month_recognition:
  assumes "well_formed t"
  shows
    "let PM = (toUpperCase (marker t) = js ''PM'');
         instant = (\<lambda>k h mins. new_Date (if k = 11 then y else y + 1) (int k)
                      (int (parseInt (day_digits t))) (int (spec_hour24 PM (parseInt h)))
                      (int (parseInt mins)))
     in (\<forall>k<12. take 3 (toLowerCase (month_name t)) = month_abbrevs ! k \<longrightarrow>
           parseEventDateTime (JS_string (render t)) y =
             Some \<lparr>startDate = instant k (start_hour t) (start_min t),
                   endDate = instant k (end_hour t) (end_min t),
                   timezone = toUpperCase (zone t)\<rparr>) \<and>
        (take 3 (toLowerCase (month_name t)) \<notin> set month_abbrevs \<longrightarrow>
           parseEventDateTime (JS_string (render t)) y = None)"
  unfolding Let_def
proof (intro conjI allI impI)
  fix k :: nat
  assume "k < 12" and "take 3 (toLowerCase (month_name t)) = month_abbrevs ! k"
  then have m: "MONTHS (take 3 (toLowerCase (month_name t))) = Some k"
    by (simp add: MONTHS_Some_iff)
  from \<open>k < 12\<close> have "(k < 11) = (k \<noteq> 11)" by arith
  then show "parseEventDateTime (JS_string (render t)) y =
      Some \<lparr>startDate = new_Date (if k = 11 then y else y + 1) (int k)
                 (int (parseInt (day_digits t)))
                 (int (spec_hour24 (toUpperCase (marker t) = js ''PM'') (parseInt (start_hour t))))
                 (int (parseInt (start_min t))),
            endDate = new_Date (if k = 11 then y else y + 1) (int k)
                 (int (parseInt (day_digits t)))
                 (int (spec_hour24 (toUpperCase (marker t) = js ''PM'') (parseInt (end_hour t))))
                 (int (parseInt (end_min t))),
            timezone = toUpperCase (zone t)\<rparr>"
    unfolding parse_render[OF assms] m by (cases "k = 11") simp_all
next
  assume "take 3 (toLowerCase (month_name t)) \<notin> set month_abbrevs"
  then have "MONTHS (take 3 (toLowerCase (month_name t))) = None"
    by (simp add: MONTHS_None_iff)
  then show "parseEventDateTime (JS_string (render t)) y = None"
    unfolding parse_render[OF assms] by simp
qed

theorem month_recognition_witness:
  "well_formed \<lparr>weekday = js ''Sat'', sp1 = js '' '', month_name = js ''MARvelous_9x'',
      sp2 = js '' '', day_digits = js ''7'', sp3 = js '' '', start_hour = js ''9'',
      start_min = js ''15'', sp4 = [], dash = 0x2D, sp5 = [], end_hour = js ''10'',
      end_min = js ''45'', sp6 = [], marker = js ''am'', sp7 = js '' '', zone = js ''UTC''\<rparr> \<and>
   take 3 (toLowerCase (js ''MARvelous_9x'')) = month_abbrevs ! 2 \<and>
   parseEventDateTime (JS_string (js ''Sat, MARvelous_9x 7, 9:15-10:45am UTC'')) 2025 =
     Some \<lparr>startDate = new_Date 2026 2 7 9 15, endDate = new_Date 2026 2 7 10 45,
           timezone = js ''UTC''\<rparr> \<and>
   well_formed \<lparr>weekday = js ''Sat'', sp1 = js '' '', month_name = js ''Xyz'',
      sp2 = js '' '', day_digits = js ''7'', sp3 = js '' '', start_hour = js ''9'',
      start_min = js ''15'', sp4 = [], dash = 0x2D, sp5 = [], end_hour = js ''10'',
      end_min = js ''45'', sp6 = [], marker = js ''am'', sp7 = js '' '', zone = js ''UTC''\<rparr> \<and>
   take 3 (toLowerCase (js ''Xyz'')) \<notin> set month_abbrevs \<and>
   parseEventDateTime (JS_string (js ''Sat, Xyz 7, 9:15-10:45am UTC'')) 2025 = None"
proof -
  let ?t = "\<lambda>m. \<lparr>weekday = js ''Sat'', sp1 = js '' '', month_name = m,
      sp2 = js '' '', day_digits = js ''7'', sp3 = js '' '', start_hour = js ''9'',
      start_min = js ''15'', sp4 = [], dash = 0x2D, sp5 = [], end_hour = js ''10'',
      end_min = js ''45'', sp6 = [], marker = js ''am'', sp7 = js '' '', zone = js ''UTC''\<rparr>"
  have wf: "well_formed (?t (js ''MARvelous_9x''))" "well_formed (?t (js ''Xyz''))"
    by (simp_all add: well_formed_def token_defs scan_defs)
  have k: "take 3 (toLowerCase (js ''MARvelous_9x'')) = month_abbrevs ! 2"
    "take 3 (toLowerCase (js ''Xyz'')) \<notin> set month_abbrevs"
    by (simp_all add: month_abbrevs_def scan_defs)
  have r: "render (?t (js ''MARvelous_9x'')) = js ''Sat, MARvelous_9x 7, 9:15-10:45am UTC''"
    "render (?t (js ''Xyz'')) = js ''Sat, Xyz 7, 9:15-10:45am UTC''"
    by (simp_all add: render_def js_def)
  have v: "parseInt (js ''7'') = 7" "parseInt (js ''9'') = 9" "parseInt (js ''15'') = 15"
    "parseInt (js ''10'') = 10" "parseInt (js ''45'') = 45" "toUpperCase (js ''am'') = js ''AM''"
    "toUpperCase (js ''UTC'') = js ''UTC''"
    by (simp_all add: scan_defs)
  have p1: "parseEventDateTime (JS_string (js ''Sat, MARvelous_9x 7, 9:15-10:45am UTC'')) 2025 =
     Some \<lparr>startDate = new_Date 2026 2 7 9 15, endDate = new_Date 2026 2 7 10 45,
           timezone = js ''UTC''\<rparr>"
    using month_recognition[OF wf(1), of 2025, unfolded Let_def, THEN conjunct1, rule_format, of 2]
      k(1)
    unfolding r by (simp add: v spec_hour24_def AM_not_PM)
  have p2: "parseEventDateTime (JS_string (js ''Sat, Xyz 7, 9:15-10:45am UTC'')) 2025 = None"
    using month_recognition[OF wf(2), of 2025, unfolded Let_def, THEN conjunct2] k(2)
    unfolding r by simp
  from wf k p1 p2 show ?thesis by simp
qed

lemma MONTHS_le_11: "MONTHS key = Some mo \<Longrightarrow> mo \<le> 11"
  by (simp add: MONTHS_Some_iff)

text \<open>
  C3, as the code has it. On every text of the accepted form whose month is known, both
  instants are built with the year \<open>referenceYear + 1\<close> when the month is not December and
  with \<open>referenceYear\<close> when it is. The instants carry that year when the day exists in the
  month, the converted hours are at most 23, the minutes at most 59 and the year lies
  between 100 and 275000; outside these bounds the date construction carries over, reads
  a year from 0 to 99 as 1900 to 1999, or gives an invalid date.
\<close>

theorem year_resolution:
  assumes "well_formed t" and "MONTHS (take 3 (toLowerCase (month_name t))) = Some mo"
  shows
    "let Y = (if mo = 11 then y else y + 1);
         PM = (toUpperCase (marker t) = js ''PM'');
         d = int (parseInt (day_digits t));
         h1 = int (spec_hour24 PM (parseInt (start_hour t)));
         m1 = int (parseInt (start_min t));
         h2 = int (spec_hour24 PM (parseInt (end_hour t)));
         m2 = int (parseInt (end_min t))
     in parseEventDateTime (JS_string (render t)) y =
          Some \<lparr>startDate = new_Date Y (int mo) d h1 m1,
                endDate = new_Date Y (int mo) d h2 m2,
                timezone = toUpperCase (zone t)\<rparr> \<and>
        (100 \<le> Y \<and> Y \<le> 275000 \<and> 1 \<le> d \<and> d \<le> DaysInMonth Y (int mo) \<and>
         h1 \<le> 23 \<and> h2 \<le> 23 \<and> m1 \<le> 59 \<and> m2 \<le> 59 \<longrightarrow>
           getFullYear (new_Date Y (int mo) d h1 m1) = Some Y \<and>
           getFullYear (new_Date Y (int mo) d h2 m2) = Some Y)"
proof -
  from MONTHS_le_11[OF assms(2)] have mo: "(mo < 11) = (mo \<noteq> 11)" "int mo \<le> 11" by auto
  show ?thesis
    unfolding Let_def
  proof (intro conjI impI)
    show "parseEventDateTime (JS_string (render t)) y =
      Some \<lparr>startDate = new_Date (if mo = 11 then y else y + 1) (int mo)
                 (int (parseInt (day_digits t)))
                 (int (spec_hour24 (toUpperCase (marker t) = js ''PM'') (parseInt (start_hour t))))
                 (int (parseInt (start_min t))),
            endDate = new_Date (if mo = 11 then y else y + 1) (int mo)
                 (int (parseInt (day_digits t)))
                 (int (spec_hour24 (toUpperCase (marker t) = js ''PM'') (parseInt (end_hour t))))
                 (int (parseInt (end_min t))),
            timezone = toUpperCase (zone t)\<rparr>"
      unfolding parse_render[OF assms(1)] assms(2) using mo(1) by (cases "mo = 11") simp_all
  next
    let ?Y = "if mo = 11 then y else y + 1"
    let ?d = "int (parseInt (day_digits t))"
    let ?h1 = "int (spec_hour24 (toUpperCase (marker t) = js ''PM'') (parseInt (start_hour t)))"
    let ?h2 = "int (spec_hour24 (toUpperCase (marker t) = js ''PM'') (parseInt (end_hour t)))"
    let ?m1 = "int (parseInt (start_min t))"
    let ?m2 = "int (parseInt (end_min t))"
    assume a: "100 \<le> ?Y \<and> ?Y \<le> 275000 \<and> 1 \<le> ?d \<and> ?d \<le> DaysInMonth ?Y (int mo) \<and>
         ?h1 \<le> 23 \<and> ?h2 \<le> 23 \<and> ?m1 \<le> 59 \<and> ?m2 \<le> 59"
    then show "getFullYear (new_Date ?Y (int mo) ?d ?h1 ?m1) = Some ?Y"
      using mo(2) by (intro new_Date_fields(1)) simp_all
    from a show "getFullYear (new_Date ?Y (int mo) ?d ?h2 ?m2) = Some ?Y"
      using mo(2) by (intro new_Date_fields(1)) simp_all
  qed
qed

text \<open>
  The claim as stated fails on a text whose month is December and whose day is 32: the
  text parses with reference year 2025, and both instants are in 2026 (1 January).
\<close>

theorem year_resolution_counterexample:
  "parseEventDateTime
     (JS_string (js ''Wednesday, Dec 32, 10:00 - 11:00 AM EST'') :: unit js_value) 2025 =
     Some \<lparr>startDate = new_Date 2025 11 32 10 0, endDate = new_Date 2025 11 32 11 0,
           timezone = js ''EST''\<rparr> \<and>
   getFullYear (new_Date 2025 11 32 10 0) = Some 2026 \<and>
   getFullYear (new_Date 2025 11 32 11 0) = Some 2026"
proof -
  have p: "parseEventDateTime
        (JS_string (js ''Wednesday, Dec 32, 10:00 - 11:00 AM EST'') :: unit js_value) 2025 =
      Some \<lparr>startDate = new_Date 2025 11 32 10 0, endDate = new_Date 2025 11 32 11 0,
            timezone = js ''EST''\<rparr>"
    by (simp add: parseEventDateTime_def match_event_def MONTHS_def scan_defs)
  have g: "getFullYear (new_Date 2025 11 32 10 0) = Some 2026"
    "getFullYear (new_Date 2025 11 32 11 0) = Some 2026"
    by code_simp+
  from p g show ?thesis by (intro conjI)
qed

theorem year_resolution_witness:
  "well_formed \<lparr>weekday = js ''Thursday'', sp1 = js '' '', month_name = js ''Jan'', sp2 = js '' '',
      day_digits = js ''2'', sp3 = js '' '', start_hour = js ''10'', start_min = js ''00'',
      sp4 = js '' '', dash = en_dash, sp5 = js '' '', end_hour = js ''11'', end_min = js ''00'',
      sp6 = js '' '', marker = js ''AM'', sp7 = js '' '', zone = js ''EST''\<rparr> \<and>
   MONTHS (take 3 (toLowerCase (js ''Jan''))) = Some 0 \<and>
   parseEventDateTime
     (JS_string (js ''Thursday, Jan 2, 10:00 '' @ [en_dash] @ js '' 11:00 AM EST'')) 2025 =
     Some \<lparr>startDate = new_Date 2026 0 2 10 0, endDate = new_Date 2026 0 2 11 0,
           timezone = js ''EST''\<rparr> \<and>
   (2::int) \<le> DaysInMonth 2026 0 \<and>
   getFullYear (new_Date 2026 0 2 10 0) = Some 2026 \<and>
   getFullYear (new_Date 2026 0 2 11 0) = Some 2026"
proof -
  let ?t = "\<lparr>weekday = js ''Thursday'', sp1 = js '' '', month_name = js ''Jan'', sp2 = js '' '',
      day_digits = js ''2'', sp3 = js '' '', start_hour = js ''10'', start_min = js ''00'',
      sp4 = js '' '', dash = en_dash, sp5 = js '' '', end_hour = js ''11'', end_min = js ''00'',
      sp6 = js '' '', marker = js ''AM'', sp7 = js '' '', zone = js ''EST''\<rparr>"
  have wf: "well_formed ?t"
    by (simp add: well_formed_def token_defs scan_defs)
  have mo: "MONTHS (take 3 (toLowerCase (month_name ?t))) = Some 0"
    by (simp add: MONTHS_def scan_defs)
  have r: "render ?t = js ''Thursday, Jan 2, 10:00 '' @ [en_dash] @ js '' 11:00 AM EST''"
    by (simp add: render_def js_def)
  have v: "parseInt (js ''2'') = 2" "parseInt (js ''10'') = 10" "parseInt (js ''00'') = 0"
    "parseInt (js ''11'') = 11" "toUpperCase (js ''AM'') = js ''AM''"
    "toUpperCase (js ''EST'') = js ''EST''"
    by (simp_all add: scan_defs)
  have dim: "(2::int) \<le> DaysInMonth 2026 0"
    by (simp add: DaysInMonth_def)
  from year_resolution[OF wf mo, of 2025] wf mo dim
  show ?thesis
    unfolding r by (simp add: v Let_def spec_hour24_def AM_not_PM)
qed

lemma parse_None_unless_accepted:
  fixes v :: "'a js_value"
  assumes "\<not> (\<exists>t. well_formed t \<and> v = JS_string (render t))"
  shows "parseEventDateTime v y = None"
  using parse_Some[of v y] assms by (cases "parseEventDateTime v y") auto

text \<open>
  C2, as the code has it. \<open>parseEventDateTime\<close> is a total function into an optional
  record of all three fields: it never throws and never returns part of a result. It
  gives no match when the text is not of the accepted form and when the month token is
  not recognised. The accepted form bounds the day and the hours to one or two digits
  and the minutes to two; beyond that no range is checked: with both clock hours between
  1 and 12 a result is built whatever the day and the minutes are.
\<close>

theorem no_match_conditions:
  "(\<not> (\<exists>t. well_formed t \<and> s = render t) \<longrightarrow> parseEventDateTime (JS_string s) y = None) \<and>
   (well_formed t \<and> MONTHS (take 3 (toLowerCase (month_name t))) = None \<longrightarrow>
      parseEventDateTime (JS_string (render t)) y = None) \<and>
   (well_formed t \<and> MONTHS (take 3 (toLowerCase (month_name t))) \<noteq> None \<and>
    1 \<le> parseInt (start_hour t) \<and> parseInt (start_hour t) \<le> 12 \<and>
    1 \<le> parseInt (end_hour t) \<and> parseInt (end_hour t) \<le> 12 \<longrightarrow>
      (\<exists>r. parseEventDateTime (JS_string (render t)) y = Some r))"
  using parse_None_unless_accepted[of "JS_string s" y]
  by (auto simp: parse_render)

text \<open>
  The claim as stated fails on a text with day 32 and minutes 75, both out of range: a
  result is built from them.
\<close>

theorem no_match_conditions_counterexample:
  "parseEventDateTime
     (JS_string (js ''Thursday, Dec 32, 10:75 - 11:00 AM EST'') :: unit js_value) 2025 =
   Some \<lparr>startDate = new_Date 2025 11 32 10 75, endDate = new_Date 2025 11 32 11 0,
         timezone = js ''EST''\<rparr>"
  by (simp add: parseEventDateTime_def match_event_def MONTHS_def scan_defs)

theorem no_match_conditions_witness:
  "\<not> (\<exists>t. well_formed t \<and> js ''Invalid string'' = render t) \<and>
   parseEventDateTime (JS_string (js ''Invalid string'')) 2025 = None \<and>
   well_formed \<lparr>weekday = js ''Monday'', sp1 = js '' '', month_name = js ''Xyz'', sp2 = js '' '',
      day_digits = js ''8'', sp3 = js '' '', start_hour = js ''1'', start_min = js ''00'',
      sp4 = js '' '', dash = en_dash, sp5 = js '' '', end_hour = js ''2'', end_min = js ''00'',
      sp6 = js '' '', marker = js ''PM'', sp7 = js '' '', zone = js ''EST''\<rparr> \<and>
   MONTHS (take 3 (toLowerCase (js ''Xyz''))) = None \<and>
   parseEventDateTime
     (JS_string (js ''Monday, Xyz 8, 1:00 '' @ [en_dash] @ js '' 2:00 PM EST'')) 2025 = None \<and>
   well_formed \<lparr>weekday = js ''Thursday'', sp1 = js '' '', month_name = js ''Dec'', sp2 = js '' '',
      day_digits = js ''32'', sp3 = js '' '', start_hour = js ''10'', start_min = js ''75'',
      sp4 = js '' '', dash = 0x2D, sp5 = js '' '', end_hour = js ''11'', end_min = js ''00'',
      sp6 = js '' '', marker = js ''AM'', sp7 = js '' '', zone = js ''EST''\<rparr> \<and>
   MONTHS (take 3 (toLowerCase (js ''Dec''))) \<noteq> None \<and>
   (\<exists>r. parseEventDateTime (JS_string (js ''Thursday, Dec 32, 10:75 - 11:00 AM EST'')) 2025 = Some r)"
proof -
  let ?t1 = "\<lparr>weekday = js ''Monday'', sp1 = js '' '', month_name = js ''Xyz'', sp2 = js '' '',
      day_digits = js ''8'', sp3 = js '' '', start_hour = js ''1'', start_min = js ''00'',
      sp4 = js '' '', dash = en_dash, sp5 = js '' '', end_hour = js ''2'', end_min = js ''00'',
      sp6 = js '' '', marker = js ''PM'', sp7 = js '' '', zone = js ''EST''\<rparr>"
  let ?t2 = "\<lparr>weekday = js ''Thursday'', sp1 = js '' '', month_name = js ''Dec'', sp2 = js '' '',
      day_digits = js ''32'', sp3 = js '' '', start_hour = js ''10'', start_min = js ''75'',
      sp4 = js '' '', dash = 0x2D, sp5 = js '' '', end_hour = js ''11'', end_min = js ''00'',
      sp6 = js '' '', marker = js ''AM'', sp7 = js '' '', zone = js ''EST''\<rparr>"
  have n: "match_event (js ''Invalid string'') = None"
    by (simp add: match_event_def scan_defs)
  have no: "\<not> (\<exists>t. well_formed t \<and> js ''Invalid string'' = render t)"
    using n match_event_render by force
  have wf: "well_formed ?t1" "well_formed ?t2"
    by (simp_all add: well_formed_def token_defs scan_defs)
  have mo: "MONTHS (take 3 (toLowerCase (month_name ?t1))) = None"
    "MONTHS (take 3 (toLowerCase (month_name ?t2))) \<noteq> None"
    by (simp_all add: MONTHS_def scan_defs)
  have r: "render ?t1 = js ''Monday, Xyz 8, 1:00 '' @ [en_dash] @ js '' 2:00 PM EST''"
    "render ?t2 = js ''Thursday, Dec 32, 10:75 - 11:00 AM EST''"
    by (simp_all add: render_def js_def)
  have v: "parseInt (js ''10'') = 10" "parseInt (js ''11'') = 11"
    by (simp_all add: scan_defs)
  from no_match_conditions[of "js ''Invalid string''" 2025 ?t1]
    no_match_conditions[of "js ''Invalid string''" 2025 ?t2] no wf mo
  show ?thesis
    unfolding r by (auto simp: v)
qed

subsection \<open>Examples\<close>

text \<open>
  The examples of the repository's tests, as a check of the model: the standard text, and
  a range that starts at midnight.
\<close>

lemma example_standard:
  "\<exists>r. parseEventDateTime
          (JS_string (js ''Thursday, Dec 4, 10:00 '' @ [en_dash] @ js '' 11:00 AM EST'')) 2025 = Some r \<and>
        getFullYear (startDate r) = Some 2025 \<and> getMonth (startDate r) = Some 11 \<and>
        getDate (startDate r) = Some 4 \<and> getHours (startDate r) = Some 10 \<and>
        getMinutes (startDate r) = Some 0 \<and> getHours (endDate r) = Some 11 \<and>
        getMinutes (endDate r) = Some 0 \<and> timezone r = js ''EST''"
proof -
  have p: "parseEventDateTime
          (JS_string (js ''Thursday, Dec 4, 10:00 '' @ [en_dash] @ js '' 11:00 AM EST'')) 2025 =
      Some \<lparr>startDate = new_Date 2025 11 4 10 0, endDate = new_Date 2025 11 4 11 0,
            timezone = js ''EST''\<rparr>"
    by (simp add: parseEventDateTime_def match_event_def MONTHS_def scan_defs)
  have d: "(4::int) \<le> DaysInMonth 2025 11" by (simp add: DaysInMonth_def)
  note s = new_Date_fields[of 2025 11 4 10 0, simplified, OF d]
  note e = new_Date_fields[of 2025 11 4 11 0, simplified, OF d]
  show ?thesis unfolding p by (simp add: s e)
qed

lemma example_midnight:
  "\<exists>r. parseEventDateTime
          (JS_string (js ''Saturday, Dec 6, 12:00 '' @ [en_dash] @ js '' 1:00 AM EST'')) 2025 = Some r \<and>
        getHours (startDate r) = Some 0 \<and> getHours (endDate r) = Some 1"
proof -
  have p: "parseEventDateTime
          (JS_string (js ''Saturday, Dec 6, 12:00 '' @ [en_dash] @ js '' 1:00 AM EST'')) 2025 =
      Some \<lparr>startDate = new_Date 2025 11 6 0 0, endDate = new_Date 2025 11 6 1 0,
            timezone = js ''EST''\<rparr>"
    by (simp add: parseEventDateTime_def match_event_def MONTHS_def scan_defs)
  have d: "(6::int) \<le> DaysInMonth 2025 11" by (simp add: DaysInMonth_def)
  note s = new_Date_fields[of 2025 11 6 0 0, simplified, OF d]
  note e = new_Date_fields[of 2025 11 6 1 0, simplified, OF d]
  show ?thesis unfolding p by (simp add: s e)
qed

section \<open>\<open>escapeICSText\<close>\<close>

lemma replace_all_every: "replace_all c rep s = replace_every c rep s"
  by (induction s) (simp_all add: replace_every_def)

lemma escapeICSText_chars: "escapeICSText s = concat (map escape_char s)"
  by (induction s) (simp_all add: escapeICSText_def escape_char_def)

text \<open>
  C6. The escaped value is the result of four replacements made one after the other:
  every backslash by two backslashes, then every semicolon by backslash-semicolon, then
  every comma by backslash-comma, then every line feed by backslash-\<open>n\<close>. Done in this
  order, each character of the input is escaped exactly once; with the backslash step
  last, the backslash put before a semicolon would be doubled.
\<close>

theorem escape_order:
  "escapeICSText text =
     replace_every 0x0A [0x5C, 0x6E]
       (replace_every 0x2C [0x5C, 0x2C]
         (replace_every 0x3B [0x5C, 0x3B]
           (replace_every 0x5C [0x5C, 0x5C] text))) \<and>
   escapeICSText text = concat (map escape_char text) \<and>
   replace_every 0x5C [0x5C, 0x5C] (replace_every 0x3B [0x5C, 0x3B] (js '';'')) \<noteq>
     escapeICSText (js '';'')"
  by (simp add: escapeICSText_chars [symmetric])
     (simp add: escapeICSText_def replace_all_every replace_every_def js_def)

section \<open>Line folding\<close>

lemma split_crlf_nonempty: "split_crlf s \<noteq> []"
  by (induction s rule: split_crlf.induct) (auto split: list.splits)

lemma split_crlf_length: "l \<in> set (split_crlf s) \<Longrightarrow> length l \<le> length s"
proof (induction s arbitrary: l rule: split_crlf.induct)
  case 1
  then show ?case by simp
next
  case (2 c)
  then show ?case by simp
next
  case (3 c d s)
  show ?case
  proof (cases "c = 0x0D \<and> d = 0x0A")
    case True
    with 3 show ?thesis by (auto simp: le_Suc_eq)
  next
    case False
    with split_crlf_nonempty[of "d # s"] obtain x xs where x: "split_crlf (d # s) = x # xs"
      by (cases "split_crlf (d # s)") auto
    from "3.prems" False x have "l = c # x \<or> l \<in> set xs" by auto
    then show ?thesis
    proof
      assume "l = c # x"
      with "3.IH"(2)[OF False, of x] x show ?thesis by simp
    next
      assume "l \<in> set xs"
      with "3.IH"(2)[OF False, of l] x show ?thesis by simp
    qed
  qed
qed

text \<open>A separator put between two texts splits them: no CR LF straddles it.\<close>

lemma split_crlf_append:
  "split_crlf (p @ CRLF @ r) = split_crlf p @ split_crlf r"
proof (induction p rule: split_crlf.induct)
  case 1
  show ?case by (simp add: CRLF_def)
next
  case (2 c)
  show ?case by (simp add: CRLF_def)
next
  case (3 c d s)
  show ?case
  proof (cases "c = 0x0D \<and> d = 0x0A")
    case True
    with 3 show ?thesis by simp
  next
    case False
    with split_crlf_nonempty[of "d # s"] obtain x xs where x: "split_crlf (d # s) = x # xs"
      by (cases "split_crlf (d # s)") auto
    from "3.IH"(2)[OF False] x False show ?thesis by auto
  qed
qed

lemma split_crlf_join:
  "ps \<noteq> [] \<Longrightarrow> split_crlf (join CRLF ps) = concat (map split_crlf ps)"
  by (induction CRLF ps rule: join.induct) (simp_all add: split_crlf_append)

lemma split_crlf_join_bound:
  assumes "ps \<noteq> []" "\<And>p. p \<in> set ps \<Longrightarrow> length p \<le> n" "l \<in> set (split_crlf (join CRLF ps))"
  shows "length l \<le> n"
proof -
  from assms(3) obtain p where "p \<in> set ps" "l \<in> set (split_crlf p)"
    unfolding split_crlf_join[OF assms(1)] by auto
  with split_crlf_length[of l p] assms(2)[of p] show ?thesis by simp
qed

text \<open>The continuation lines: a space before each chunk of 74 characters of the remainder.\<close>

lemma fold_rest_chunks:
  "\<exists>cs. fold_rest r = map ((#) 0x20) cs \<and> concat cs = r \<and>
        (\<forall>c\<in>set cs. c \<noteq> [] \<and> length c \<le> 74) \<and> (\<forall>c\<in>set (butlast cs). length c = 74)"
proof (induction r rule: fold_rest.induct)
  case (1 r)
  show ?case
  proof (cases "length r > 0")
    case False
    then show ?thesis by (simp add: fold_rest.simps)
  next
    case True
    from "1.IH"[OF True] obtain cs where cs: "fold_rest (drop 74 r) = map ((#) 0x20) cs"
      "concat cs = drop 74 r" "\<forall>c\<in>set cs. c \<noteq> [] \<and> length c \<le> 74"
      "\<forall>c\<in>set (butlast cs). length c = 74"
      by blast
    let ?cs = "take 74 r # cs"
    have a: "fold_rest r = map ((#) 0x20) ?cs"
      using True cs(1) by (subst fold_rest.simps) simp
    have b: "concat ?cs = r" using cs(2) by simp
    have c: "\<forall>c\<in>set ?cs. c \<noteq> [] \<and> length c \<le> 74" using cs(3) True by auto
    have d: "\<forall>c\<in>set (butlast ?cs). length c = 74"
    proof (cases "cs = []")
      case True
      then show ?thesis by simp
    next
      case False
      with cs(2,3) have "drop 74 r \<noteq> []" by (cases cs) auto
      then have "length (take 74 r) = 74" by simp
      with cs(4) False show ?thesis by simp
    qed
    show ?thesis
      apply (rule exI[of _ ?cs])
      apply (intro conjI)
         apply (rule a)
        apply (rule b)
       apply (rule c)
      apply (rule d)
      done
  qed
qed

lemma fold_rest_length:
  assumes "p \<in> set (fold_rest r)"
  shows "length p \<le> 75"
proof -
  from fold_rest_chunks[of r] obtain cs where
    cs: "fold_rest r = map ((#) 0x20) cs" "\<forall>c\<in>set cs. c \<noteq> [] \<and> length c \<le> 74"
    by blast
  from assms obtain c where "c \<in> set cs" "p = 0x20 # c"
    unfolding cs(1) by auto
  with cs(2) show ?thesis by simp
qed

lemma foldLine_pieces: "foldLine line = join CRLF (pieces line)"
  by (simp add: foldLine_def pieces_def)

lemma pieces_length: "p \<in> set (pieces line) \<Longrightarrow> length p \<le> 75"
  by (auto simp: pieces_def dest: fold_rest_length split: if_splits)

lemma foldLine_lines:
  assumes "l \<in> set (split_crlf (foldLine line))"
  shows "length l \<le> 75"
proof (rule split_crlf_join_bound[where ps = "pieces line"])
  show "pieces line \<noteq> []" by (simp add: pieces_def)
  show "\<And>p. p \<in> set (pieces line) \<Longrightarrow> length p \<le> 75" by (rule pieces_length)
  show "l \<in> set (split_crlf (join CRLF (pieces line)))"
    using assms by (simp only: foldLine_pieces)
qed

lemma ics_lines_nonempty: "ics_lines e ev \<noteq> []"
  by (simp add: ics_lines_def)

lemma generateICS_lines:
  assumes "l \<in> set (split_crlf (generateICS e ev))"
  shows "length l \<le> 75"
proof -
  have "map foldLine (ics_lines e ev) \<noteq> []" by (simp add: ics_lines_nonempty)
  from split_crlf_join[OF this] assms obtain line where
    "l \<in> set (split_crlf (foldLine line))"
    unfolding generateICS_def by auto
  then show ?thesis by (rule foldLine_lines)
qed

text \<open>
  C5. Every physical line of the output, the pieces between the CR LF pairs, has at most
  75 characters. \<open>foldLine\<close> leaves a line of at most 75 characters as it is; a longer
  line becomes its first 75 characters, followed by continuation lines joined with CR LF,
  each a single space and then the next chunk of the remainder: chunks of 74 characters,
  the last one of 1 to 74, which together are the remainder.
\<close>

theorem line_folding:
  "(\<forall>l\<in>set (split_crlf (generateICS e ev)). length l \<le> 75) \<and>
   (length line \<le> 75 \<longrightarrow> foldLine line = line) \<and>
   (75 < length line \<longrightarrow>
      (\<exists>cs. foldLine line = join CRLF (take 75 line # map ((#) 0x20) cs) \<and>
            concat cs = drop 75 line \<and>
            (\<forall>c\<in>set cs. c \<noteq> [] \<and> length c \<le> 74) \<and>
            (\<forall>c\<in>set (butlast cs). length c = 74)))"
proof (intro conjI ballI impI)
  fix l assume "l \<in> set (split_crlf (generateICS e ev))"
  then show "length l \<le> 75" by (rule generateICS_lines)
next
  assume "length line \<le> 75"
  then show "foldLine line = line" by (simp add: foldLine_def)
next
  assume long: "75 < length line"
  from fold_rest_chunks[of "drop 75 line"] obtain cs where
    cs: "fold_rest (drop 75 line) = map ((#) 0x20) cs" "concat cs = drop 75 line"
      "\<forall>c\<in>set cs. c \<noteq> [] \<and> length c \<le> 74" "\<forall>c\<in>set (butlast cs). length c = 74"
    by blast
  have f: "foldLine line = join CRLF (take 75 line # map ((#) 0x20) cs)"
    using long by (simp add: foldLine_def cs(1))
  show "\<exists>cs. foldLine line = join CRLF (take 75 line # map ((#) 0x20) cs) \<and>
            concat cs = drop 75 line \<and>
            (\<forall>c\<in>set cs. c \<noteq> [] \<and> length c \<le> 74) \<and>
            (\<forall>c\<in>set (butlast cs). length c = 74)"
    apply (rule exI[of _ cs])
    apply (intro conjI)
       apply (rule f)
      apply (rule cs(2))
     apply (rule cs(3))
    apply (rule cs(4))
    done
qed

lemma formatISODate_valid:
  assumes "100 \<le> y" "y \<le> 275000" "0 \<le> m" "m \<le> 11" "1 \<le> dd" "dd \<le> DaysInMonth y m"
    and "0 \<le> h" "h \<le> 23" "0 \<le> mi" "mi \<le> 59"
  shows "formatISODate (new_Date y m dd h mi) =
     toString 10 (Some y) @ pad (Some (m + 1)) @ pad (Some dd) @ js ''T'' @
     pad (Some h) @ pad (Some mi) @ pad (Some 0)"
  by (simp add: formatISODate_def new_Date_fields[OF assms])

lemmas ics_eval = pad_def padStart2_def toString_def digits_radix.simps digit_char_def js_def
  DaysInMonth_def DaysInYear_def

lemma ex_stamps:
  "formatISODate (new_Date 2025 11 4 9 30) = js ''20251204T093000''"
  "formatISODate (new_Date 2025 11 15 13 0) = js ''20251215T130000''"
  "formatISODate (new_Date 2025 11 15 14 0) = js ''20251215T140000''"
  by (subst formatISODate_valid; simp add: ics_eval)+

lemma ex_uid:
  "generateUID \<lparr>now_ms = 1765000000000, random36 = js ''0.4fzyo82mvyr'',
        stamp = new_Date 2025 11 4 9 30\<rparr> (js ''Office Hours/ Q&A: Test, Event; More'') =
   js ''1765000000000-4fzyo82mv-14w6yt4@dynamous.ai''"
  by (simp add: generateUID_def titleHash_def shl5_def ics_eval)

theorem line_folding_witness:
  "split_crlf
     (generateICS
        \<lparr>now_ms = 1765000000000, random36 = js ''0.4fzyo82mvyr'', stamp = new_Date 2025 11 4 9 30\<rparr>
        \<lparr>title = js ''Office Hours/ Q&A: Test, Event; More'',
           ev_startDate = new_Date 2025 11 15 13 0, ev_endDate = new_Date 2025 11 15 14 0,
           location = Some (js ''Virtual''), url = None,
           description = Some (js ''This is a very long description that should be folded according to RFC 5545 requirements for line length limits in ICS files.'')\<rparr>) =
     [js ''BEGIN:VCALENDAR'', js ''VERSION:2.0'',
      js ''PRODID:-//Circle Calendar Exporter//Dynamous AI//EN'', js ''CALSCALE:GREGORIAN'',
      js ''METHOD:PUBLISH'', js ''BEGIN:VEVENT'',
      js ''UID:1765000000000-4fzyo82mv-14w6yt4@dynamous.ai'',
      js ''DTSTAMP:20251204T093000Z'', js ''DTSTART:20251215T130000'',
      js ''DTEND:20251215T140000'',
      js ''SUMMARY:Office Hours/ Q&A: Test'' @ [0x5C] @ js '', Event'' @ [0x5C] @ js ''; More'',
      js ''LOCATION:Virtual'',
      js ''DESCRIPTION:This is a very long description that should be folded according'',
      js ''  to RFC 5545 requirements for line length limits in ICS files.'',
      js ''END:VEVENT'', js ''END:VCALENDAR''] \<and>
   length (js ''DESCRIPTION:This is a very long description that should be folded according'') \<le> 75 \<and>
   foldLine (js ''VERSION:2.0'') = js ''VERSION:2.0'' \<and>
   75 < length (js ''DESCRIPTION:This is a very long description that should be folded according to RFC 5545 requirements for line length limits in ICS files.'') \<and>
   (\<exists>cs. foldLine (js ''DESCRIPTION:This is a very long description that should be folded according to RFC 5545 requirements for line length limits in ICS files.'') =
           join CRLF (js ''DESCRIPTION:This is a very long description that should be folded according'' # map ((#) 0x20) cs) \<and>
         concat cs = js '' to RFC 5545 requirements for line length limits in ICS files.'')"
proof -
  let ?e = "\<lparr>now_ms = 1765000000000, random36 = js ''0.4fzyo82mvyr'', stamp = new_Date 2025 11 4 9 30\<rparr>"
  let ?ev = "\<lparr>title = js ''Office Hours/ Q&A: Test, Event; More'',
           ev_startDate = new_Date 2025 11 15 13 0, ev_endDate = new_Date 2025 11 15 14 0,
           location = Some (js ''Virtual''), url = None,
           description = Some (js ''This is a very long description that should be folded according to RFC 5545 requirements for line length limits in ICS files.'')\<rparr>"
  let ?long = "js ''DESCRIPTION:This is a very long description that should be folded according to RFC 5545 requirements for line length limits in ICS files.''"
  let ?first = "js ''DESCRIPTION:This is a very long description that should be folded according''"
  have out: "split_crlf (generateICS ?e ?ev) =
     [js ''BEGIN:VCALENDAR'', js ''VERSION:2.0'',
      js ''PRODID:-//Circle Calendar Exporter//Dynamous AI//EN'', js ''CALSCALE:GREGORIAN'',
      js ''METHOD:PUBLISH'', js ''BEGIN:VEVENT'',
      js ''UID:1765000000000-4fzyo82mv-14w6yt4@dynamous.ai'',
      js ''DTSTAMP:20251204T093000Z'', js ''DTSTART:20251215T130000'',
      js ''DTEND:20251215T140000'',
      js ''SUMMARY:Office Hours/ Q&A: Test'' @ [0x5C] @ js '', Event'' @ [0x5C] @ js ''; More'',
      js ''LOCATION:Virtual'', ?first,
      js ''  to RFC 5545 requirements for line length limits in ICS files.'',
      js ''END:VEVENT'', js ''END:VCALENDAR'']"
    unfolding generateICS_def ics_lines_def
    by (simp add: ex_stamps ex_uid)
       (simp add: js_def escapeICSText_def optional_line_def foldLine_def fold_rest.simps CRLF_def)
  have len: "75 < length ?long" "take 75 ?long = ?first"
    "drop 75 ?long = js '' to RFC 5545 requirements for line length limits in ICS files.''"
    "length (js ''VERSION:2.0'') \<le> 75"
    by (simp_all add: js_def)
  have "?first \<in> set (split_crlf (generateICS ?e ?ev))"
    unfolding out by simp
  with line_folding[of ?e ?ev "js ''VERSION:2.0''"] have a: "length ?first \<le> 75" by blast
  from line_folding[of ?e ?ev "js ''VERSION:2.0''"] len(4)
  have b: "foldLine (js ''VERSION:2.0'') = js ''VERSION:2.0''" by blast
  from line_folding[of ?e ?ev ?long] len(1)
  have "\<exists>cs. foldLine ?long = join CRLF (take 75 ?long # map ((#) 0x20) cs) \<and>
         concat cs = drop 75 ?long" by blast
  then have c: "\<exists>cs. foldLine ?long = join CRLF (?first # map ((#) 0x20) cs) \<and>
         concat cs = js '' to RFC 5545 requirements for line length limits in ICS files.''"
    unfolding len(2,3) .
  from out a b len(1) c show ?thesis by (intro conjI)
qed

end
